theory Spec2Isabelle
  imports Main "HOL-Library.Sublist" "HOL-Library.AList"
begin

section \<open>Values, promises and the host process\<close>

text \<open>
  The extension host bridge of \<^verbatim>\<open>core-electron-main/src/bootstrap/window.ts\<close>:
  \<^verbatim>\<open>KTNodeProcess\<close> forks the node extension host and memoizes a readiness promise,
  \<^verbatim>\<open>CodeWindow\<close> owns one browser window and at most one \<^verbatim>\<open>KTNodeProcess\<close>.
  JavaScript values that cross a process boundary (an IPC message, the window id of a
  metadata query, the extra metadata of a window) are values of \<open>jsvalue\<close>.
\<close>

datatype jsvalue =
    JUndefined
  | JNull
  | JBool bool
  | JNum int
  | JStr string
  | JObj "(string \<times> jsvalue) list"

datatype js_error = JsError string

text \<open>
  A \<^verbatim>\<open>Promise<void>\<close> is pending, fulfilled, or rejected with an error. Promises live in
  a heap and are named by their index, so that two promises with the same outcome are
  still two promises. A cell made by \<^verbatim>\<open>new Promise(executor)\<close> is settled through its
  \<^verbatim>\<open>resolve\<close>/\<open>reject\<close> functions (\<open>Settles\<close>). Every call of an \<^verbatim>\<open>async\<close> function
  hands out a new promise: it is pending while the body runs, fulfilled when the body
  returns and rejected when the body throws (\<open>Returns\<close>), and when the body runs
  \<^verbatim>\<open>return q\<close> on a promise \<open>q\<close> it follows \<open>q\<close> (\<open>Follows\<close>).
\<close>

datatype promise_state = Pending | Fulfilled | Rejected js_error

datatype promise_cell = Settles promise_state | Returns promise_state | Follows nat

text \<open>
  The value of a key of the \<^verbatim>\<open>env\<close> object given to \<^verbatim>\<open>fork\<close>: a string, or the
  JavaScript value \<^verbatim>\<open>undefined\<close> (\<^verbatim>\<open>process.env\<close> itself holds strings only).
\<close>

datatype env_value = EnvString string | EnvUndefined

record fork_call =
  fork_modulePath :: string
  fork_args :: "string list"
  fork_env :: "string \<rightharpoonup> env_value"
  fork_execArgv :: "string list option"
  fork_stdio :: "string list"

text \<open>
  A forked child: the call that made it, whether \<^verbatim>\<open>kill()\<close> has been called on it, and
  the promise whose \<^verbatim>\<open>resolve\<close> and \<^verbatim>\<open>reject\<close> its \<^verbatim>\<open>'message'\<close> and \<^verbatim>\<open>'error'\<close>
  listeners close over. The process id is the index in \<open>children\<close>.
\<close>

record ChildProcess =
  cp_call :: fork_call
  cp_killed :: bool
  cp_settles :: nat

datatype log_entry =
    ConsoleLog jsvalue
  | LoggerLog "string list"
  | LoggerError string
  | LoggerErrorObject js_error

record world =
  process_env :: "string \<rightharpoonup> string"
  isDevelopment :: bool
  promises :: "promise_cell list"
  children :: "ChildProcess list"
  logged :: "log_entry list"

definition promise_outcome :: "world \<Rightarrow> nat \<Rightarrow> promise_state" where
  "promise_outcome w p =
     (if p < length (promises w) then
        (case promises w ! p of
           Settles s \<Rightarrow> s
         | Returns s \<Rightarrow> s
         | Follows q \<Rightarrow>
             (if q < length (promises w) then
                (case promises w ! q of Settles s \<Rightarrow> s | Returns s \<Rightarrow> s | Follows _ \<Rightarrow> Pending)
              else Pending))
      else Pending)"

text \<open>
  \<^verbatim>\<open>resolve()\<close> and \<^verbatim>\<open>reject(e)\<close> of the promise \<open>r\<close>: only the first call on a pending
  promise has an effect.
\<close>

definition settle :: "nat \<Rightarrow> promise_state \<Rightarrow> world \<Rightarrow> world" where
  "settle r v w =
     (if r < length (promises w) \<and> promises w ! r = Settles Pending
      then w\<lparr>promises := (promises w)[r := Settles v]\<rparr>
      else w)"

text \<open>
  The body of the \<^verbatim>\<open>async\<close> function whose promise is \<open>r\<close> has come to its end.
\<close>

definition finish :: "nat \<Rightarrow> promise_state \<Rightarrow> world \<Rightarrow> world" where
  "finish r v w =
     (if r < length (promises w) \<and> promises w ! r = Returns Pending
      then w\<lparr>promises := (promises w)[r := Returns v]\<rparr>
      else w)"

section \<open>KTNodeProcess\<close>

record KTNodeProcess =
  kt_forkPath :: string
  kt_extensionEntry :: string
  kt_process :: "nat option"
  kt_ready :: "nat option"

definition new_KTNodeProcess :: "string \<Rightarrow> string \<Rightarrow> KTNodeProcess" where
  "new_KTNodeProcess forkPath extensionEntry =
     \<lparr>kt_forkPath = forkPath, kt_extensionEntry = extensionEntry,
      kt_process = None, kt_ready = None\<rparr>"

text \<open>
  \<^verbatim>\<open>env: { ...process.env, KTELECTRON: '1', EXTENSION_HOST_ENTRY: this.extensionEntry }\<close>
  followed by \<^verbatim>\<open>forkOptions.env!.WORKSPACE_DIR = workspace\<close>, where \<open>workspace\<close> is a
  string or \<^verbatim>\<open>undefined\<close>.
\<close>

definition forkOptions_env ::
  "(string \<rightharpoonup> string) \<Rightarrow> string \<Rightarrow> string option \<Rightarrow> (string \<rightharpoonup> env_value)" where
  "forkOptions_env penv extensionEntry workspace =
     (map_option EnvString \<circ> penv)
       (''KTELECTRON'' \<mapsto> EnvString ''1'',
        ''EXTENSION_HOST_ENTRY'' \<mapsto> EnvString extensionEntry,
        ''WORKSPACE_DIR'' \<mapsto> (case workspace of None \<Rightarrow> EnvUndefined | Some dir \<Rightarrow> EnvString dir))"

text \<open>
  The variables that the child finds in its environment. \<^verbatim>\<open>fork\<close> of Node.js (from
  version 10 on) hands a key of \<^verbatim>\<open>env\<close> to the child only when its value is not
  \<^verbatim>\<open>undefined\<close>.
\<close>

definition child_environment :: "(string \<rightharpoonup> env_value) \<Rightarrow> (string \<rightharpoonup> string)" where
  "child_environment env k = (case env k of Some (EnvString v) \<Rightarrow> Some v | _ \<Rightarrow> None)"

definition forkOptions_execArgv :: "bool \<Rightarrow> string list option" where
  "forkOptions_execArgv dev =
     (if dev then Some [''-r'', ''ts-node/register'', ''-r'', ''tsconfig-paths/register'']
      else None)"

definition build_fork_call :: "world \<Rightarrow> KTNodeProcess \<Rightarrow> string \<Rightarrow> string option \<Rightarrow> fork_call" where
  "build_fork_call w n rpcListenPath workspace =
     \<lparr>fork_modulePath = kt_forkPath n,
      fork_args = [] @ [''--listenPath'', rpcListenPath],
      fork_env = forkOptions_env (process_env w) (kt_extensionEntry n) workspace,
      fork_execArgv = forkOptions_execArgv (isDevelopment w),
      fork_stdio = [''pipe'', ''pipe'', ''pipe'', ''ipc'']\<rparr>"

text \<open>
  The executor of \<^verbatim>\<open>this.ready = new Promise((resolve, reject) => { try { ... } catch (e)
  { reject(e) } })\<close>. \<open>fork_throws\<close> is what \<^verbatim>\<open>fork\<close> does on this call: \<open>None\<close> when it
  returns a child, \<open>Some e\<close> when it throws \<open>e\<close> synchronously; then \<^verbatim>\<open>this._process\<close>
  is not assigned and the promise is rejected with \<open>e\<close>. The result is the new promise,
  the object and the host.
\<close>

definition create_ready ::
  "js_error option \<Rightarrow> string \<Rightarrow> string option \<Rightarrow> KTNodeProcess \<Rightarrow> world \<Rightarrow> nat \<times> KTNodeProcess \<times> world" where
  "create_ready fork_throws rpcListenPath workspace n w =
     (let r = length (promises w);
          w0 = w\<lparr>promises := promises w @ [Settles Pending]\<rparr>
      in case fork_throws of
           None \<Rightarrow>
             (r,
              n\<lparr>kt_process := Some (length (children w0)), kt_ready := Some r\<rparr>,
              w0\<lparr>children := children w0 @
                    [\<lparr>cp_call = build_fork_call w n rpcListenPath workspace,
                      cp_killed = False, cp_settles = r\<rparr>]\<rparr>)
         | Some e \<Rightarrow> (r, n\<lparr>kt_ready := Some r\<rparr>, settle r (Rejected e) w0))"

text \<open>
  \<^verbatim>\<open>async start(rpcListenPath, workspace)\<close>: \<^verbatim>\<open>if (!this.ready) { this.ready = new
  Promise(...) } return this.ready\<close>. Being \<^verbatim>\<open>async\<close>, every call returns a promise of its
  own, which follows \<^verbatim>\<open>this.ready\<close>.
\<close>

definition KTNodeProcess_start ::
  "js_error option \<Rightarrow> string \<Rightarrow> string option \<Rightarrow> KTNodeProcess \<Rightarrow> world \<Rightarrow> nat \<times> KTNodeProcess \<times> world" where
  "KTNodeProcess_start fork_throws rpcListenPath workspace n w =
     (let (r, n1, w1) =
            (case kt_ready n of
               Some r \<Rightarrow> (r, n, w)
             | None \<Rightarrow> create_ready fork_throws rpcListenPath workspace n w)
      in (length (promises w1), n1, w1\<lparr>promises := promises w1 @ [Follows r]\<rparr>))"

text \<open>\<^verbatim>\<open>dispose() { if (this._process) { this._process.kill() } }\<close>\<close>

definition kill :: "nat \<Rightarrow> world \<Rightarrow> world" where
  "kill pid w =
     (if pid < length (children w)
      then w\<lparr>children := (children w)[pid := (children w ! pid)\<lparr>cp_killed := True\<rparr>]\<rparr>
      else w)"

definition KTNodeProcess_dispose :: "KTNodeProcess \<Rightarrow> world \<Rightarrow> world" where
  "KTNodeProcess_dispose n w = (case kt_process n of Some pid \<Rightarrow> kill pid w | None \<Rightarrow> w)"

text \<open>
  What the listeners installed by the executor do when the child \<open>pid\<close> emits:
  \<^verbatim>\<open>'message'\<close> logs to the console and resolves when \<^verbatim>\<open>message === 'ready'\<close>,
  \<^verbatim>\<open>'error'\<close> rejects with the error, and data on stdout and stderr goes to the logger.
\<close>

datatype child_event =
    Message jsvalue
  | Error js_error
  | StdoutData string
  | StderrData string

definition child_emit :: "nat \<Rightarrow> child_event \<Rightarrow> world \<Rightarrow> world" where
  "child_emit pid ev w =
     (if pid < length (children w) then
        (let r = cp_settles (children w ! pid) in
         case ev of
           Message m \<Rightarrow>
             (let w1 = w\<lparr>logged := logged w @ [ConsoleLog m]\<rparr>
              in if m = JStr ''ready'' then settle r Fulfilled w1 else w1)
         | Error e \<Rightarrow> settle r (Rejected e) w
         | StdoutData d \<Rightarrow> w\<lparr>logged := logged w @ [LoggerLog [''[node]'' @ d]]\<rparr>
         | StderrData d \<Rightarrow> w\<lparr>logged := logged w @ [LoggerError (''[node]'' @ d)]\<rparr>)
      else w)"

definition run_child :: "(nat \<times> child_event) list \<Rightarrow> world \<Rightarrow> world" where
  "run_child evs w = fold (\<lambda>(pid, ev). child_emit pid ev) evs w"

text \<open>The host process before any window has been opened.\<close>

definition boot_world :: "(string \<rightharpoonup> string) \<Rightarrow> bool \<Rightarrow> world" where
  "boot_world penv dev =
     \<lparr>process_env = penv, isDevelopment = dev, promises = [], children = [], logged = []\<rparr>"


text \<open>
  What the specification says of the promise that \<^verbatim>\<open>start\<close> returns, as a function of
  the events of the child processes in the order of their arrival: the first
  \<^verbatim>\<open>'ready'\<close> message or error event of the child \<open>pid\<close> decides, any other event leaves
  the promise as it is.
\<close>


fun spec_start_outcome :: "nat \<Rightarrow> (nat \<times> child_event) list \<Rightarrow> promise_state" where
  "spec_start_outcome pid [] = Pending"
| "spec_start_outcome pid ((q, Message m) # evs) =
     (if q = pid \<and> m = JStr ''ready'' then Fulfilled else spec_start_outcome pid evs)"
| "spec_start_outcome pid ((q, Error e) # evs) =
     (if q = pid then Rejected e else spec_start_outcome pid evs)"
| "spec_start_outcome pid ((q, StdoutData d) # evs) = spec_start_outcome pid evs"
| "spec_start_outcome pid ((q, StderrData d) # evs) = spec_start_outcome pid evs"

text \<open>
  Every listener of a forked child closes over a promise that exists.
\<close>

definition listeners_closed :: "world \<Rightarrow> bool" where
  "listeners_closed w = list_all (\<lambda>c. cp_settles c < length (promises w)) (children w)"


text \<open>
  The promise \<open>p\<close> follows \<open>r\<close>, and \<open>pid\<close> is the one child whose listeners settle \<open>r\<close>.
\<close>

definition follows_child :: "nat \<Rightarrow> nat \<Rightarrow> nat \<Rightarrow> world \<Rightarrow> bool" where
  "follows_child p r pid w \<longleftrightarrow>
     p < length (promises w) \<and> r < length (promises w) \<and> promises w ! p = Follows r \<and>
     pid < length (children w) \<and>
     (\<forall>q < length (children w). cp_settles (children w ! q) = r \<longleftrightarrow> q = pid)"

text \<open>
  One \<^verbatim>\<open>KTNodeProcess\<close> object over time: calls of \<^verbatim>\<open>start\<close> with any arguments and any
  behaviour of \<^verbatim>\<open>fork\<close>, interleaved with events of the children.
\<close>

datatype kt_action =
    CallStart "js_error option" string "string option"
  | ChildEmits nat child_event

fun kt_step :: "kt_action \<Rightarrow> KTNodeProcess \<times> world \<Rightarrow> KTNodeProcess \<times> world" where
  "kt_step (CallStart fork_throws rpcListenPath workspace) (n, w) =
     snd (KTNodeProcess_start fork_throws rpcListenPath workspace n w)"
| "kt_step (ChildEmits pid ev) (n, w) = (n, child_emit pid ev w)"

definition kt_run :: "kt_action list \<Rightarrow> KTNodeProcess \<times> world \<Rightarrow> KTNodeProcess \<times> world" where
  "kt_run acts nw = fold kt_step acts nw"

text \<open>The first call of \<^verbatim>\<open>start\<close> on a new object in a host that has just booted.\<close>

definition demo_first_start :: "nat \<times> KTNodeProcess \<times> world" where
  "demo_first_start =
     KTNodeProcess_start None ''/tmp/abc.sock'' (Some ''/proj'')
       (new_KTNodeProcess ''ext.process.js'' ''ext.host.js'') (boot_world Map.empty False)"

text \<open>The object has memoized the promise \<open>r\<close>, and the promise \<open>p\<close> follows it.\<close>

definition memoized :: "nat \<Rightarrow> nat \<Rightarrow> KTNodeProcess \<times> world \<Rightarrow> bool" where
  "memoized r p nw \<longleftrightarrow>
     kt_ready (fst nw) = Some r \<and> p < length (promises (snd nw)) \<and>
     promises (snd nw) ! p = Follows r"

section \<open>CodeWindow\<close>

text \<open>
  The fields of \<^verbatim>\<open>ElectronAppConfig\<close> that \<^verbatim>\<open>window.ts\<close> reads.
\<close>

record ElectronAppConfig =
  nodeEntry :: string
  extensionEntry :: string
  browserUrl :: string
  browserNodeIntegrated :: bool
  browserPreload :: string
  webviewPreload :: string
  plainWebviewPreload :: string
  extensionDir :: string

record webPreferences =
  nodeIntegration :: bool
  preload :: string
  webviewTag :: bool

text \<open>
  The \<^verbatim>\<open>BrowserWindow\<close> of a \<^verbatim>\<open>CodeWindow\<close>: its id, the options it was made with, the
  listeners that \<^verbatim>\<open>CodeWindow\<close> has put on its \<^verbatim>\<open>webContents\<close> with \<^verbatim>\<open>on\<close>, and what has
  been done to it. A \<^verbatim>\<open>'did-finish-load'\<close> listener is known by the address it closes over;
  the \<^verbatim>\<open>'new-window'\<close> listeners are all the same, so they are counted. A listener added
  with \<^verbatim>\<open>on\<close> stays until it is removed, and \<^verbatim>\<open>window.ts\<close> removes none of them.
\<close>

record BrowserWindow =
  bw_id :: int
  bw_show :: bool
  bw_webPreferences :: webPreferences
  bw_frame :: bool
  bw_titleBarStyle :: string
  bw_height :: nat
  bw_width :: nat
  bw_loaded :: "string list"
  bw_shown :: bool
  bw_on_did_finish_load :: "string list"
  bw_on_new_window :: nat
  bw_sent :: "(string \<times> string) list"
  bw_opened_windows :: "string list"

definition DEFAULT_WINDOW_HEIGHT :: nat where
  "DEFAULT_WINDOW_HEIGHT = 700"

definition DEFAULT_WINDOW_WIDTH :: nat where
  "DEFAULT_WINDOW_WIDTH = 1000"

record CodeWindow =
  workspace :: "string option"
  appConfig :: ElectronAppConfig
  metadata :: "(string \<times> jsvalue) list option"
  browser :: BrowserWindow
  node :: "KTNodeProcess option"
  ipc_listening :: bool

text \<open>
  The constructor. \<open>isOSX\<close> is the constant of that name and \<open>browser_id\<close> the id that
  Electron gives the new window. The window is hidden, nothing is loaded, and the
  metadata listener is on \<^verbatim>\<open>ipcMain\<close>.
\<close>

definition new_CodeWindow ::
  "ElectronAppConfig \<Rightarrow> bool \<Rightarrow> int \<Rightarrow> string option \<Rightarrow> (string \<times> jsvalue) list option \<Rightarrow> CodeWindow" where
  "new_CodeWindow cfg isOSX browser_id ws md =
     \<lparr>workspace = ws,
      appConfig = cfg,
      metadata = md,
      browser =
        \<lparr>bw_id = browser_id,
         bw_show = False,
         bw_webPreferences =
           \<lparr>nodeIntegration = browserNodeIntegrated cfg, preload = browserPreload cfg,
            webviewTag = True\<rparr>,
         bw_frame = isOSX,
         bw_titleBarStyle = ''hidden'',
         bw_height = DEFAULT_WINDOW_HEIGHT,
         bw_width = DEFAULT_WINDOW_WIDTH,
         bw_loaded = [], bw_shown = False, bw_on_did_finish_load = [], bw_on_new_window = 0,
         bw_sent = [], bw_opened_windows = []\<rparr>,
      node = None,
      ipc_listening = True\<rparr>"

subsection \<open>The metadata channel\<close>

text \<open>
  An object literal with a spread: the properties are set from left to right, a later
  one replaces the value of an earlier one of the same name and keeps its place.
\<close>

definition spread :: "(string \<times> jsvalue) list option \<Rightarrow> (string \<times> jsvalue) list \<Rightarrow> (string \<times> jsvalue) list" where
  "spread src obj =
     (case src of None \<Rightarrow> obj | Some kvs \<Rightarrow> fold (\<lambda>(k, v). AList.update k v) kvs obj)"

text \<open>
  The order in which an object lists its own properties, to \<^verbatim>\<open>JSON.stringify\<close> as to
  any other reader: the array indices first (the decimal numerals below \<open>4294967295\<close> with no
  leading zero), by ascending value, then the other names in the order in which they
  were first set.
\<close>

definition is_digit :: "char \<Rightarrow> bool" where
  "is_digit c \<longleftrightarrow> 48 \<le> (of_char c :: nat) \<and> (of_char c :: nat) \<le> 57"

fun decimal :: "string \<Rightarrow> int \<Rightarrow> int" where
  "decimal [] n = n"
| "decimal (c # cs) n = decimal cs (10 * n + (of_char c - 48))"

definition array_index :: "string \<Rightarrow> int option" where
  "array_index k =
     (case k of
        [] \<Rightarrow> None
      | c # cs \<Rightarrow>
          if list_all is_digit k \<and> (c \<noteq> CHR ''0'' \<or> cs = []) \<and> decimal k 0 < 4294967295
          then Some (decimal k 0) else None)"

definition own_property_order :: "(string \<times> jsvalue) list \<Rightarrow> (string \<times> jsvalue) list" where
  "own_property_order kvs =
     sort_key (\<lambda>(k, v). case array_index k of Some n \<Rightarrow> n | None \<Rightarrow> 0)
       (filter (\<lambda>(k, v). array_index k \<noteq> None) kvs) @
     filter (\<lambda>(k, v). array_index k = None) kvs"

text \<open>
  The argument of \<^verbatim>\<open>JSON.stringify\<close> in \<^verbatim>\<open>metadataResponser\<close>. \<open>uri_file\<close> stands for
  \<^verbatim>\<open>URI.file(path).toString()\<close>.
\<close>

definition metadata_object :: "(string \<Rightarrow> string) \<Rightarrow> CodeWindow \<Rightarrow> (string \<times> jsvalue) list" where
  "metadata_object uri_file cw =
     own_property_order
       (spread (metadata cw)
          [(''workspace'', case workspace cw of None \<Rightarrow> JUndefined | Some dir \<Rightarrow> JStr dir),
           (''webview'',
              JObj [(''webviewPreload'', JStr (uri_file (webviewPreload (appConfig cw)))),
                    (''plainWebviewPreload'', JStr (uri_file (plainWebviewPreload (appConfig cw))))]),
           (''extensionDir'', JStr (extensionDir (appConfig cw)))])"

record ipc_event =
  returnValue :: "string option"

text \<open>
  \<^verbatim>\<open>(event, windowId) => { if (windowId === this.browser.id) { event.returnValue =
  JSON.stringify({...}) } }\<close>. The id of a window is a number, so a \<open>windowId\<close> is
  strictly equal to it only when it is that number. \<open>stringify\<close> stands for
  \<^verbatim>\<open>JSON.stringify\<close>.
\<close>

definition metadataResponser ::
  "(jsvalue \<Rightarrow> string) \<Rightarrow> (string \<Rightarrow> string) \<Rightarrow> CodeWindow \<Rightarrow> jsvalue \<Rightarrow> ipc_event \<Rightarrow> ipc_event" where
  "metadataResponser stringify uri_file cw windowId event =
     (if windowId = JNum (bw_id (browser cw))
      then event\<lparr>returnValue := Some (stringify (JObj (metadata_object uri_file cw)))\<rparr>
      else event)"

text \<open>
  \<^verbatim>\<open>ipcMain\<close> emits \<^verbatim>\<open>'window-metadata'\<close>: every window whose listener is still on
  \<^verbatim>\<open>ipcMain\<close> sees the one event object, in the order in which the windows were made.
\<close>

definition emit_window_metadata ::
  "(jsvalue \<Rightarrow> string) \<Rightarrow> (string \<Rightarrow> string) \<Rightarrow> CodeWindow list \<Rightarrow> jsvalue \<Rightarrow> ipc_event \<Rightarrow> ipc_event" where
  "emit_window_metadata stringify uri_file windows windowId event =
     fold (\<lambda>cw. metadataResponser stringify uri_file cw windowId)
       (filter ipc_listening windows) event"

subsection \<open>Links that open a new window\<close>

text \<open>
  \<^verbatim>\<open>s.indexOf(pat)\<close>: the least index at which \<open>pat\<close> occurs in \<open>s\<close>, or \<open>-1\<close>.
\<close>

fun indexOf_from :: "string \<Rightarrow> string \<Rightarrow> nat \<Rightarrow> int" where
  "indexOf_from [] pat i = (if pat = [] then int i else - 1)"
| "indexOf_from (c # cs) pat i =
     (if prefix pat (c # cs) then int i else indexOf_from cs pat (Suc i))"

definition indexOf :: "string \<Rightarrow> string \<Rightarrow> int" where
  "indexOf s pat = indexOf_from s pat 0"

record navigation_event =
  defaultPrevented :: bool

text \<open>
  The listener of \<^verbatim>\<open>bindEvents\<close>, on the event object and the list of the URLs given to
  \<^verbatim>\<open>shell.openExternal\<close> so far.
\<close>

definition new_window_listener ::
  "string \<Rightarrow> navigation_event \<times> string list \<Rightarrow> navigation_event \<times> string list" where
  "new_window_listener url = (\<lambda>(event, external).
     if \<not> defaultPrevented event then
       (event\<lparr>defaultPrevented := True\<rparr>,
        if indexOf url ''http'' = 0 then external @ [url] else external)
     else (event, external))"

definition bindEvents :: "BrowserWindow \<Rightarrow> BrowserWindow" where
  "bindEvents b = b\<lparr>bw_on_new_window := Suc (bw_on_new_window b)\<rparr>"

subsection \<open>The main process with one window\<close>

text \<open>
  A call of \<^verbatim>\<open>CodeWindow.start\<close> that waits at its \<^verbatim>\<open>await\<close>: the promise it waits for,
  the \<^verbatim>\<open>rpcListenPath\<close> of the call, and the promise the call has returned.
\<close>

record suspended_start =
  awaits :: nat
  rpcListenPath_of :: string
  returns :: nat

record main_process =
  host :: world
  window :: CodeWindow
  suspended :: "suspended_start list"
  openExternal :: "string list"

definition boot ::
  "(string \<rightharpoonup> string) \<Rightarrow> bool \<Rightarrow> ElectronAppConfig \<Rightarrow> bool \<Rightarrow> int \<Rightarrow> string option \<Rightarrow>
   (string \<times> jsvalue) list option \<Rightarrow> main_process" where
  "boot penv dev cfg isOSX browser_id ws md =
     \<lparr>host = boot_world penv dev,
      window = new_CodeWindow cfg isOSX browser_id ws md,
      suspended = [],
      openExternal = []\<rparr>"

text \<open>\<^verbatim>\<open>clear() { if (this.node) { this.node.dispose(); this.node = null } }\<close>\<close>

definition CodeWindow_clear :: "main_process \<Rightarrow> main_process" where
  "CodeWindow_clear s =
     (case node (window s) of
        Some n \<Rightarrow> s\<lparr>host := KTNodeProcess_dispose n (host s), window := (window s)\<lparr>node := None\<rparr>\<rparr>
      | None \<Rightarrow> s)"

text \<open>
  \<^verbatim>\<open>dispose() { this.clear(); super.dispose() }\<close>: the one disposable that the constructor
  added takes the metadata listener off \<^verbatim>\<open>ipcMain\<close>.
\<close>

definition CodeWindow_dispose :: "main_process \<Rightarrow> main_process" where
  "CodeWindow_dispose s =
     (let s1 = CodeWindow_clear s in s1\<lparr>window := (window s1)\<lparr>ipc_listening := False\<rparr>\<rparr>)"

text \<open>
  \<^verbatim>\<open>async start()\<close> up to its \<^verbatim>\<open>await\<close>: \<^verbatim>\<open>this.clear()\<close>, a new \<^verbatim>\<open>KTNodeProcess\<close> in
  \<^verbatim>\<open>this.node\<close>, and \<^verbatim>\<open>this.node.start(rpcListenPath, this.workspace)\<close>. The parameter
  \<open>rpcListenPath\<close> is the value of \<^verbatim>\<open>join(os.tmpdir(), `${uuid()}.sock`)\<close> in this call.
  The call returns its own promise and waits.
\<close>

definition CodeWindow_start :: "js_error option \<Rightarrow> string \<Rightarrow> main_process \<Rightarrow> nat \<times> main_process" where
  "CodeWindow_start fork_throws rpcListenPath s =
     (let result = length (promises (host s));
          s0 = s\<lparr>host := (host s)\<lparr>promises := promises (host s) @ [Returns Pending]\<rparr>\<rparr>;
          s1 = CodeWindow_clear s0;
          cfg = appConfig (window s1);
          (p, n, w) = KTNodeProcess_start fork_throws rpcListenPath (workspace (window s1))
                        (new_KTNodeProcess (nodeEntry cfg) (extensionEntry cfg)) (host s1)
      in (result,
          s1\<lparr>host := w,
             window := (window s1)\<lparr>node := Some n\<rparr>,
             suspended := suspended s1 @
               [\<lparr>awaits = p, rpcListenPath_of = rpcListenPath, returns = result\<rparr>]\<rparr>))"

text \<open>
  The rest of \<^verbatim>\<open>start()\<close>, run when the awaited promise has settled: after a fulfilment
  the statements that follow the \<^verbatim>\<open>await\<close> in the \<^verbatim>\<open>try\<close> block, after a rejection the
  \<^verbatim>\<open>catch\<close> block. Either way the body then ends without an exception.
\<close>

definition CodeWindow_start_resume :: "promise_state \<Rightarrow> suspended_start \<Rightarrow> main_process \<Rightarrow> main_process" where
  "CodeWindow_start_resume outcome k s =
     (case outcome of
        Pending \<Rightarrow> s
      | Fulfilled \<Rightarrow>
          (let cfg = appConfig (window s);
               w1 = (host s)\<lparr>logged := logged (host s) @
                      [LoggerLog [''starting browser window with url: '', browserUrl cfg]]\<rparr>;
               b = browser (window s);
               b1 = b\<lparr>bw_loaded := bw_loaded b @ [browserUrl cfg]\<rparr>;
               b2 = b1\<lparr>bw_shown := True\<rparr>;
               b3 = b2\<lparr>bw_on_did_finish_load := bw_on_did_finish_load b2 @ [rpcListenPath_of k]\<rparr>;
               b4 = bindEvents b3
           in s\<lparr>host := finish (returns k) Fulfilled w1, window := (window s)\<lparr>browser := b4\<rparr>\<rparr>)
      | Rejected e \<Rightarrow>
          s\<lparr>host := finish (returns k) Fulfilled
                     ((host s)\<lparr>logged := logged (host s) @ [LoggerErrorObject e]\<rparr>)\<rparr>)"

text \<open>
  After every call and every event the suspended calls whose awaited promise has settled
  go on, in the order in which they began to wait.
\<close>

definition resume_settled :: "suspended_start \<Rightarrow> main_process \<Rightarrow> main_process" where
  "resume_settled k s =
     (case promise_outcome (host s) (awaits k) of
        Pending \<Rightarrow> s\<lparr>suspended := suspended s @ [k]\<rparr>
      | Fulfilled \<Rightarrow> CodeWindow_start_resume Fulfilled k s
      | Rejected e \<Rightarrow> CodeWindow_start_resume (Rejected e) k s)"

definition run_microtasks :: "main_process \<Rightarrow> main_process" where
  "run_microtasks s = fold resume_settled (suspended s) (s\<lparr>suspended := []\<rparr>)"

text \<open>
  \<^verbatim>\<open>webContents\<close> emits \<^verbatim>\<open>'did-finish-load'\<close>: every listener sends its address on the
  channel \<^verbatim>\<open>'preload:listenPath'\<close>.
\<close>

definition emit_did_finish_load :: "BrowserWindow \<Rightarrow> BrowserWindow" where
  "emit_did_finish_load b =
     b\<lparr>bw_sent := bw_sent b @ map (Pair ''preload:listenPath'') (bw_on_did_finish_load b)\<rparr>"

text \<open>
  \<^verbatim>\<open>webContents\<close> emits \<^verbatim>\<open>'new-window'\<close> for \<open>url\<close>, on an event object that is
  default-prevented already or not: the listeners run one after the other on the one
  event object, and Electron opens the new window unless the default is prevented at
  the end.
\<close>

definition emit_new_window :: "bool \<Rightarrow> string \<Rightarrow> main_process \<Rightarrow> main_process" where
  "emit_new_window prevented url s =
     (let b = browser (window s);
          (event, external) =
             (new_window_listener url ^^ bw_on_new_window b)
               (\<lparr>defaultPrevented = prevented\<rparr>, openExternal s);
          b1 = (if defaultPrevented event then b
                else b\<lparr>bw_opened_windows := bw_opened_windows b @ [url]\<rparr>)
      in s\<lparr>window := (window s)\<lparr>browser := b1\<rparr>, openExternal := external\<rparr>)"

datatype action =
    Start "js_error option" string
  | Clear
  | Dispose
  | Closed
  | Child nat child_event
  | DidFinishLoad
  | NewWindow bool string

fun perform :: "action \<Rightarrow> main_process \<Rightarrow> main_process" where
  "perform (Start fork_throws rpcListenPath) s = snd (CodeWindow_start fork_throws rpcListenPath s)"
| "perform Clear s = CodeWindow_clear s"
| "perform Dispose s = CodeWindow_dispose s"
| "perform Closed s = CodeWindow_dispose s"
| "perform (Child pid ev) s = s\<lparr>host := child_emit pid ev (host s)\<rparr>"
| "perform DidFinishLoad s =
     s\<lparr>window := (window s)\<lparr>browser := emit_did_finish_load (browser (window s))\<rparr>\<rparr>"
| "perform (NewWindow prevented url) s = emit_new_window prevented url s"

definition step :: "action \<Rightarrow> main_process \<Rightarrow> main_process" where
  "step a s = run_microtasks (perform a s)"

definition run :: "action list \<Rightarrow> main_process \<Rightarrow> main_process" where
  "run acts s = fold step acts s"

text \<open>The children on which \<^verbatim>\<open>kill()\<close> has not been called.\<close>

definition live_children :: "world \<Rightarrow> ChildProcess list" where
  "live_children w = filter (\<lambda>c. \<not> cp_killed c) (children w)"

section \<open>A window at work\<close>

text \<open>
  A configuration and the states of one window on it: just constructed, with
  \<^verbatim>\<open>start()\<close> waiting for the extension host, and after the extension host has reported
  that it is ready.
\<close>

definition demo_config :: ElectronAppConfig where
  "demo_config =
     \<lparr>nodeEntry = ''ext.process.js'', extensionEntry = ''ext.host.js'',
      browserUrl = ''file:///app/index.html'', browserNodeIntegrated = True,
      browserPreload = ''preload.js'', webviewPreload = ''/app/webview.js'',
      plainWebviewPreload = ''/app/plain.js'', extensionDir = ''/app/extensions''\<rparr>"

definition demo_boot :: main_process where
  "demo_boot = boot Map.empty False demo_config False 1 (Some ''/proj'') None"

definition demo_started :: main_process where
  "demo_started = step (Start None ''/tmp/abc.sock'') demo_boot"

definition demo_running :: main_process where
  "demo_running = step (Child 0 (Message (JStr ''ready''))) demo_started"

text \<open>
  A stand-in for \<^verbatim>\<open>JSON.stringify\<close> that shows the workspace of the object only.
\<close>

definition demo_stringify :: "jsvalue \<Rightarrow> string" where
  "demo_stringify v = (case v of JObj ((k, JStr dir) # kvs) \<Rightarrow> dir | _ \<Rightarrow> [])"

text \<open>
  The window while \<^verbatim>\<open>start()\<close> waits, after the extension host has emitted an error.
\<close>

definition demo_rejected :: main_process where
  "demo_rejected = perform (Child 0 (Error (JsError ''boom''))) demo_started"

text \<open>
  The promise \<open>r\<close> of a call of an \<^verbatim>\<open>async\<close> function whose body is running or has
  returned: it is not rejected.
\<close>

definition unrejected :: "nat \<Rightarrow> world \<Rightarrow> bool" where
  "unrejected r w \<longleftrightarrow>
     r < length (promises w) \<and>
     (promises w ! r = Returns Pending \<or> promises w ! r = Returns Fulfilled)"

text \<open>
  Every child on which \<^verbatim>\<open>kill()\<close> has not been called is the process of the
  \<^verbatim>\<open>KTNodeProcess\<close> that the window holds in \<^verbatim>\<open>this.node\<close>.
\<close>

definition owned :: "main_process \<Rightarrow> bool" where
  "owned s \<longleftrightarrow>
     (\<forall>pid < length (children (host s)).
        \<not> cp_killed (children (host s) ! pid) \<longrightarrow>
        (\<exists>n. node (window s) = Some n \<and> kt_process n = Some pid))"

text \<open>\<^verbatim>\<open>kill()\<close> has been called on every child.\<close>

definition all_killed :: "world \<Rightarrow> bool" where
  "all_killed w = list_all cp_killed (children w)"

text \<open>
  The promise that a suspended call of \<^verbatim>\<open>CodeWindow.start\<close> waits for is the promise that
  \<^verbatim>\<open>KTNodeProcess.start\<close> returned to it: it follows the \<^verbatim>\<open>ready\<close> promise of a
  \<^verbatim>\<open>KTNodeProcess\<close>.
\<close>

definition launcher_promise :: "world \<Rightarrow> suspended_start \<Rightarrow> bool" where
  "launcher_promise w k \<longleftrightarrow>
     awaits k < length (promises w) \<and>
     (case promises w ! awaits k of
        Follows r \<Rightarrow>
          r < length (promises w) \<and>
          (case promises w ! r of Settles st \<Rightarrow> True | _ \<Rightarrow> False)
      | _ \<Rightarrow> False)"

text \<open>
  Every suspended call waits for such a promise, and none of these promises has
  settled: the state of the main process between two turns of the event loop.
\<close>

definition waiting :: "main_process \<Rightarrow> bool" where
  "waiting s =
     list_all (\<lambda>k. launcher_promise (host s) k \<and> promise_outcome (host s) (awaits k) = Pending)
       (suspended s)"

text \<open>
  From \<open>w\<close> to \<open>w'\<close> no promise is lost and only promises of \<^verbatim>\<open>async\<close> calls change.
\<close>

definition keeps_launchers :: "world \<Rightarrow> world \<Rightarrow> bool" where
  "keeps_launchers w w' \<longleftrightarrow>
     length (promises w) \<le> length (promises w') \<and>
     (\<forall>i < length (promises w).
        (\<forall>st. promises w ! i \<noteq> Returns st) \<longrightarrow> promises w' ! i = promises w ! i)"

section \<open>The call of fork\<close>

lemma start_fresh_forks:
  "KTNodeProcess_start None path ws (new_KTNodeProcess fp ee) w =
     (Suc (length (promises w)),
      \<lparr>kt_forkPath = fp, kt_extensionEntry = ee,
       kt_process = Some (length (children w)), kt_ready = Some (length (promises w))\<rparr>,
      w\<lparr>promises := promises w @ [Settles Pending, Follows (length (promises w))],
        children := children w @
          [\<lparr>cp_call = build_fork_call w (new_KTNodeProcess fp ee) path ws,
            cp_killed = False, cp_settles = length (promises w)\<rparr>]\<rparr>)"
  by (simp add: KTNodeProcess_start_def create_ready_def new_KTNodeProcess_def Let_def)


lemma forkOptions_env_other:
  "k \<noteq> ''KTELECTRON'' \<Longrightarrow> k \<noteq> ''EXTENSION_HOST_ENTRY'' \<Longrightarrow> k \<noteq> ''WORKSPACE_DIR'' \<Longrightarrow>
   forkOptions_env penv ee ws k = map_option EnvString (penv k)"
  by (simp add: forkOptions_env_def)

text \<open>
  C3. Started on a new \<^verbatim>\<open>KTNodeProcess\<close> with workspace \<^verbatim>\<open>"/proj"\<close> and transport
  address \<^verbatim>\<open>"/tmp/abc.sock"\<close>, \<^verbatim>\<open>start\<close> forks exactly one child, on the fork path of
  the object, whose environment has \<^verbatim>\<open>KTELECTRON = "1"\<close>, the extension host entry under
  \<^verbatim>\<open>EXTENSION_HOST_ENTRY\<close> and \<^verbatim>\<open>WORKSPACE_DIR = "/proj"\<close>, and whose argument list is
  exactly \<^verbatim>\<open>["--listenPath", "/tmp/abc.sock"]\<close>.
\<close>

theorem start_fork_env_and_args:
  "case KTNodeProcess_start None ''/tmp/abc.sock'' (Some ''/proj'')
          (new_KTNodeProcess forkPath entry) w of
     (p, n, w') \<Rightarrow>
       (\<exists>c. children w' = children w @ [c] \<and>
            kt_process n = Some (length (children w)) \<and>
            fork_modulePath (cp_call c) = forkPath \<and>
            fork_env (cp_call c) ''KTELECTRON'' = Some (EnvString ''1'') \<and>
            fork_env (cp_call c) ''EXTENSION_HOST_ENTRY'' = Some (EnvString entry) \<and>
            fork_env (cp_call c) ''WORKSPACE_DIR'' = Some (EnvString ''/proj'') \<and>
            fork_args (cp_call c) = [''--listenPath'', ''/tmp/abc.sock''])"
  by (subst start_fresh_forks)
     (simp add: build_fork_call_def forkOptions_env_def new_KTNodeProcess_def)

text \<open>
  C8. Started on a new \<^verbatim>\<open>KTNodeProcess\<close> with no workspace, \<^verbatim>\<open>start\<close> leaves
  \<^verbatim>\<open>WORKSPACE_DIR\<close> unset in the environment of the fork: the assignment
  \<^verbatim>\<open>env.WORKSPACE_DIR = undefined\<close> makes the variable \<^verbatim>\<open>undefined\<close>, so it holds no
  string and the child finds no such variable, also when the environment of the parent
  had a value for it.
\<close>

theorem start_no_workspace_unsets_WORKSPACE_DIR:
  "case KTNodeProcess_start None rpcListenPath None
          (new_KTNodeProcess forkPath entry) w of
     (p, n, w') \<Rightarrow>
       (\<exists>c. children w' = children w @ [c] \<and>
            fork_env (cp_call c) ''WORKSPACE_DIR'' = Some EnvUndefined \<and>
            (\<forall>dir. fork_env (cp_call c) ''WORKSPACE_DIR'' \<noteq> Some (EnvString dir)) \<and>
            child_environment (fork_env (cp_call c)) ''WORKSPACE_DIR'' = None)"
  by (subst start_fresh_forks)
     (simp add: build_fork_call_def forkOptions_env_def new_KTNodeProcess_def
        child_environment_def)

text \<open>
  C9. The environment of the fork is the environment of the parent process with only
  \<^verbatim>\<open>KTELECTRON\<close>, \<^verbatim>\<open>EXTENSION_HOST_ENTRY\<close> and \<^verbatim>\<open>WORKSPACE_DIR\<close> added or overridden:
  at every other name it holds what the parent holds there, a variable the parent has
  with the same string and a variable the parent lacks not at all.
\<close>

theorem start_fork_env_inherits_parent:
  assumes "k \<notin> {''KTELECTRON'', ''EXTENSION_HOST_ENTRY'', ''WORKSPACE_DIR''}"
  shows "case KTNodeProcess_start None rpcListenPath ws
                (new_KTNodeProcess forkPath entry) w of
           (p, n, w') \<Rightarrow>
             (\<exists>c. children w' = children w @ [c] \<and>
                  fork_env (cp_call c) k = map_option EnvString (process_env w k))"
  using assms
  by (subst start_fresh_forks)
     (simp add: build_fork_call_def forkOptions_env_other new_KTNodeProcess_def)

theorem start_fork_env_inherits_parent_witness:
  "''PATH'' \<notin> {''KTELECTRON'', ''EXTENSION_HOST_ENTRY'', ''WORKSPACE_DIR''} \<and>
   (case KTNodeProcess_start None ''/tmp/abc.sock'' (Some ''/proj'')
           (new_KTNodeProcess ''ext.process.js'' ''ext.host.js'')
           (boot_world [''PATH'' \<mapsto> ''/usr/bin'', ''WORKSPACE_DIR'' \<mapsto> ''/old''] False) of
      (p, n, w') \<Rightarrow>
        (\<exists>c. children w' = [] @ [c] \<and> fork_env (cp_call c) ''PATH'' = Some (EnvString ''/usr/bin'')))"
proof -
  have h: "''PATH'' \<notin> {''KTELECTRON'', ''EXTENSION_HOST_ENTRY'', ''WORKSPACE_DIR''}"
    by simp
  show ?thesis
    using h start_fork_env_inherits_parent [OF h, where rpcListenPath = "''/tmp/abc.sock''"
        and ws = "Some ''/proj''" and forkPath = "''ext.process.js''"
        and entry = "''ext.host.js''"
        and w = "boot_world [''PATH'' \<mapsto> ''/usr/bin'', ''WORKSPACE_DIR'' \<mapsto> ''/old''] False"]
    by (simp add: boot_world_def)
qed

section \<open>Promises under the events of the children\<close>

lemma settle_length [simp]: "length (promises (settle r v w)) = length (promises w)"
  by (simp add: settle_def)

lemma settle_children [simp]: "children (settle r v w) = children w"
  by (simp add: settle_def)

lemma settle_cell:
  "promises (settle r v w) ! i =
     (if i = r \<and> r < length (promises w) \<and> promises w ! r = Settles Pending
      then Settles v else promises w ! i)"
  by (simp add: settle_def)

lemma child_emit_length [simp]: "length (promises (child_emit q ev w)) = length (promises w)"
  by (simp add: child_emit_def Let_def split: child_event.splits)

lemma child_emit_children [simp]: "children (child_emit q ev w) = children w"
  by (simp add: child_emit_def Let_def split: child_event.splits)

lemma child_emit_cell:
  "promises (child_emit q ev w) ! i =
     (if q < length (children w) \<and> i = cp_settles (children w ! q) \<and> i < length (promises w)
         \<and> promises w ! i = Settles Pending
      then (case ev of Message m \<Rightarrow> if m = JStr ''ready'' then Settles Fulfilled else Settles Pending
            | Error e \<Rightarrow> Settles (Rejected e) | _ \<Rightarrow> Settles Pending)
      else promises w ! i)"
  by (auto simp add: child_emit_def Let_def settle_cell split: child_event.splits)

lemma run_child_Nil [simp]: "run_child [] w = w"
  by (simp add: run_child_def)

lemma run_child_Cons [simp]: "run_child ((q, ev) # evs) w = run_child evs (child_emit q ev w)"
  by (simp add: run_child_def)

lemma run_child_length [simp]: "length (promises (run_child evs w)) = length (promises w)"
  by (induction evs arbitrary: w) auto

lemma run_child_children [simp]: "children (run_child evs w) = children w"
  by (induction evs arbitrary: w) auto

lemma child_emit_cell_stable:
  "promises w ! i \<noteq> Settles Pending \<Longrightarrow> promises (child_emit q ev w) ! i = promises w ! i"
  by (simp add: child_emit_cell)

lemma run_child_cell_stable:
  "promises w ! i \<noteq> Settles Pending \<Longrightarrow> promises (run_child evs w) ! i = promises w ! i"
  by (induction evs arbitrary: w) (auto simp: child_emit_cell_stable)

lemma follows_child_emit:
  "follows_child p r pid w \<Longrightarrow> follows_child p r pid (child_emit q ev w)"
  by (auto simp: follows_child_def child_emit_cell_stable)

lemma outcome_via:
  "follows_child p r pid w \<Longrightarrow> promises w ! r = Settles st \<Longrightarrow> promise_outcome w p = st"
  by (simp add: follows_child_def promise_outcome_def)

lemma run_child_outcome:
  "follows_child p r pid w \<Longrightarrow> promises w ! r = Settles st \<Longrightarrow>
   promise_outcome (run_child evs w) p = (if st = Pending then spec_start_outcome pid evs else st)"
proof (induction evs arbitrary: w st)
  case Nil
  then show ?case by (simp add: outcome_via)
next
  case (Cons a evs)
  obtain q ev where a: "a = (q, ev)" by (cases a)
  have fc: "follows_child p r pid (child_emit q ev w)"
    using Cons.prems(1) by (rule follows_child_emit)
  show ?case
  proof (cases "st = Pending")
    case False
    then have "promises (child_emit q ev w) ! r = Settles st"
      using Cons.prems(2) by (simp add: child_emit_cell_stable)
    from Cons.IH [OF fc this] False show ?thesis by (simp add: a)
  next
    case True
    have r: "r < length (promises w)" and pid: "pid < length (children w)"
      and uniq: "\<And>q. q < length (children w) \<Longrightarrow> cp_settles (children w ! q) = r \<longleftrightarrow> q = pid"
      using Cons.prems(1) by (auto simp: follows_child_def)
    show ?thesis
    proof (cases "q = pid")
      case qp: True
      have cell: "promises (child_emit q ev w) ! r =
          (case ev of Message m \<Rightarrow> if m = JStr ''ready'' then Settles Fulfilled else Settles Pending
            | Error e \<Rightarrow> Settles (Rejected e) | _ \<Rightarrow> Settles Pending)"
        using r pid uniq [of pid] Cons.prems(2) True qp by (simp add: child_emit_cell)
      show ?thesis
      proof (cases ev)
        case (Message m)
        then show ?thesis using Cons.IH [OF fc, of "if m = JStr ''ready'' then Fulfilled else Pending"] cell True qp a
          by simp
      next
        case (Error e)
        then show ?thesis using Cons.IH [OF fc, of "Rejected e"] cell True qp a by simp
      next
        case (StdoutData d)
        then show ?thesis using Cons.IH [OF fc, of Pending] cell True qp a by simp
      next
        case (StderrData d)
        then show ?thesis using Cons.IH [OF fc, of Pending] cell True qp a by simp
      qed
    next
      case qp: False
      have "promises (child_emit q ev w) ! r = Settles Pending"
        using uniq [of q] qp Cons.prems(2) True by (auto simp add: child_emit_cell)
      from Cons.IH [OF fc this] show ?thesis using True qp a by (cases ev) auto
    qed
  qed
qed


lemma start_fresh_throws:
  "KTNodeProcess_start (Some e) path ws (new_KTNodeProcess fp ee) w =
     (Suc (length (promises w)),
      \<lparr>kt_forkPath = fp, kt_extensionEntry = ee,
       kt_process = None, kt_ready = Some (length (promises w))\<rparr>,
      w\<lparr>promises := promises w @ [Settles (Rejected e), Follows (length (promises w))]\<rparr>)"
  by (simp add: KTNodeProcess_start_def create_ready_def new_KTNodeProcess_def Let_def settle_def)

lemma listeners_closedD:
  "listeners_closed w \<Longrightarrow> q < length (children w) \<Longrightarrow> cp_settles (children w ! q) < length (promises w)"
  by (simp add: listeners_closed_def list_all_length)

text \<open>
  C1. The promise that \<^verbatim>\<open>start\<close> returns on a new \<^verbatim>\<open>KTNodeProcess\<close> is rejected with
  \<open>e\<close> when \<^verbatim>\<open>fork\<close> throws \<open>e\<close>. When \<^verbatim>\<open>fork\<close> returns the child, then after any
  sequence of events of the children the promise is what the first deciding event of
  that child made it: fulfilled by a message equal to \<^verbatim>\<open>'ready'\<close>, rejected with the
  error of an error event, and pending as long as the child has sent only other messages
  and output.
\<close>

theorem start_promise_follows_readiness_handshake:
  assumes "listeners_closed w"
  shows "case KTNodeProcess_start fork_throws rpcListenPath ws
                (new_KTNodeProcess forkPath entry) w of
           (p, n, w') \<Rightarrow>
             (case fork_throws of
                Some e \<Rightarrow> kt_process n = None \<and> promise_outcome (run_child evs w') p = Rejected e
              | None \<Rightarrow>
                  kt_process n = Some (length (children w)) \<and>
                  promise_outcome (run_child evs w') p =
                    spec_start_outcome (length (children w)) evs)"
proof (cases fork_throws)
  case None
  let ?r = "length (promises w)" and ?pid = "length (children w)"
  let ?w' = "w\<lparr>promises := promises w @ [Settles Pending, Follows ?r],
        children := children w @
          [\<lparr>cp_call = build_fork_call w (new_KTNodeProcess forkPath entry) rpcListenPath ws,
            cp_killed = False, cp_settles = ?r\<rparr>]\<rparr>"
  have "\<And>q. q < ?pid \<Longrightarrow> cp_settles (children w ! q) \<noteq> ?r"
    using listeners_closedD [OF assms] by fastforce
  then have fc: "follows_child (Suc ?r) ?r ?pid ?w'"
    by (auto simp: follows_child_def nth_append less_Suc_eq)
  have cell: "promises ?w' ! ?r = Settles Pending"
    by (simp add: nth_append)
  show ?thesis
    using run_child_outcome [OF fc cell, of evs] None
    by (simp add: start_fresh_forks)
next
  case (Some e)
  let ?r = "length (promises w)"
  let ?w' = "w\<lparr>promises := promises w @ [Settles (Rejected e), Follows ?r]\<rparr>"
  have "promise_outcome (run_child evs ?w') (Suc ?r) = Rejected e"
    by (simp add: promise_outcome_def run_child_cell_stable nth_append)
  then show ?thesis using Some by (simp add: start_fresh_throws)
qed

theorem start_promise_follows_readiness_handshake_witness:
  "listeners_closed (boot_world Map.empty False) \<and>
   (case KTNodeProcess_start None ''/tmp/abc.sock'' (Some ''/proj'')
           (new_KTNodeProcess ''ext.process.js'' ''ext.host.js'') (boot_world Map.empty False) of
      (p, n, w') \<Rightarrow>
        kt_process n = Some 0 \<and>
        promise_outcome
          (run_child [(0, StdoutData ''booting''), (0, Message (JStr ''hello'')),
                      (0, Message (JStr ''ready'')), (0, Error (JsError ''late''))] w') p
          = Fulfilled)"
proof -
  have h: "listeners_closed (boot_world Map.empty False)"
    by (simp add: listeners_closed_def boot_world_def)
  show ?thesis
    using h start_promise_follows_readiness_handshake [OF h, where fork_throws = None
        and rpcListenPath = "''/tmp/abc.sock''" and ws = "Some ''/proj''"
        and forkPath = "''ext.process.js''" and entry = "''ext.host.js''"
        and evs = "[(0, StdoutData ''booting''), (0, Message (JStr ''hello'')),
                      (0, Message (JStr ''ready'')), (0, Error (JsError ''late''))]"]
    by (simp add: boot_world_def split: prod.splits)
qed

section \<open>Calling start again\<close>

lemma start_again:
  "kt_ready n = Some r \<Longrightarrow>
   KTNodeProcess_start fork_throws path ws n w =
     (length (promises w), n, w\<lparr>promises := promises w @ [Follows r]\<rparr>)"
  by (simp add: KTNodeProcess_start_def)

lemma start_first_memoized:
  "KTNodeProcess_start fork_throws path ws (new_KTNodeProcess fp ee) w = (p, n, w') \<Longrightarrow>
   memoized (length (promises w)) p (n, w')"
  by (cases fork_throws)
     (auto simp: start_fresh_forks start_fresh_throws memoized_def nth_append)

lemma memoized_step: "memoized r p nw \<Longrightarrow> memoized r p (kt_step a nw)"
proof (cases nw)
  case (Pair n w)
  assume m: "memoized r p nw"
  show ?thesis
  proof (cases a)
    case (CallStart ft path ws)
    with m Pair show ?thesis
      by (simp add: memoized_def start_again nth_append)
  next
    case (ChildEmits pid ev)
    with m Pair show ?thesis
      by (simp add: memoized_def child_emit_cell_stable)
  qed
qed

lemma memoized_run: "memoized r p nw \<Longrightarrow> memoized r p (kt_run acts nw)"
  unfolding kt_run_def by (induction acts arbitrary: nw) (auto simp: memoized_step)

lemma memoized_outcome:
  "memoized r p nw \<Longrightarrow> memoized r p' nw \<Longrightarrow>
   promise_outcome (snd nw) p = promise_outcome (snd nw) p'"
  by (simp add: memoized_def promise_outcome_def)

text \<open>
  C2, as the code has it. After the first call of \<^verbatim>\<open>start\<close> on a new object and any
  later calls and events, a further call with any arguments, and whatever \<^verbatim>\<open>fork\<close>
  would do, forks no child and leaves the object as it is. It returns a promise of its
  own, the newest of the heap, and from then on that promise and the promise of the
  first call have the same outcome at every moment.
\<close>

theorem later_start_shares_the_first_outcome:
  assumes first: "KTNodeProcess_start fork_throws1 rpcListenPath1 workspace1
                    (new_KTNodeProcess forkPath entry) w0 = (p1, n1, w1)"
    and between: "kt_run acts (n1, w1) = (n2, w2)"
    and later: "KTNodeProcess_start fork_throws2 rpcListenPath2 workspace2 n2 w2 = (p2, n3, w3)"
  shows "children w3 = children w2 \<and> n3 = n2 \<and> p2 = length (promises w2) \<and>
         (\<forall>acts'. promise_outcome (snd (kt_run acts' (n3, w3))) p2 =
                  promise_outcome (snd (kt_run acts' (n3, w3))) p1)"
proof -
  let ?r = "length (promises w0)"
  have m2: "memoized ?r p1 (n2, w2)"
    using memoized_run [OF start_first_memoized [OF first], of acts] between by simp
  then have ready: "kt_ready n2 = Some ?r"
    by (simp add: memoized_def)
  have eq: "(p2, n3, w3) = (length (promises w2), n2, w2\<lparr>promises := promises w2 @ [Follows ?r]\<rparr>)"
    using start_again [OF ready, of fork_throws2 rpcListenPath2 workspace2 w2] later by simp
  have a: "memoized ?r p1 (n3, w3)" and b: "memoized ?r p2 (n3, w3)"
    using m2 eq by (auto simp: memoized_def nth_append)
  have "promise_outcome (snd (kt_run acts' (n3, w3))) p2 =
        promise_outcome (snd (kt_run acts' (n3, w3))) p1" for acts'
    by (rule memoized_outcome [OF memoized_run [OF b] memoized_run [OF a]])
  then show ?thesis using eq by simp
qed

lemma demo_first_start_promise: "fst demo_first_start = 1"
  by (simp add: demo_first_start_def start_fresh_forks boot_world_def)

lemma demo_first_start_ready: "kt_ready (fst (snd demo_first_start)) = Some 0"
  by (simp add: demo_first_start_def start_fresh_forks boot_world_def)

lemma demo_ready_message:
  "kt_run [ChildEmits 0 (Message (JStr ''ready''))] (snd demo_first_start) =
     (fst (snd demo_first_start), child_emit 0 (Message (JStr ''ready'')) (snd (snd demo_first_start)))"
  by (cases "snd demo_first_start") (simp add: kt_run_def)

lemma demo_ready_message_promises:
  "promises (child_emit 0 (Message (JStr ''ready'')) (snd (snd demo_first_start)))
   = [Settles Fulfilled, Follows 0]"
  by (simp add: demo_first_start_def start_fresh_forks boot_world_def
      child_emit_def settle_def)

theorem later_start_shares_the_first_outcome_witness:
  "case demo_first_start of (p1, n1, w1) \<Rightarrow>
    case kt_run [ChildEmits 0 (Message (JStr ''ready''))] (n1, w1) of (n2, w2) \<Rightarrow>
    case KTNodeProcess_start (Some (JsError ''spawn'')) ''/tmp/other.sock'' None n2 w2 of
      (p2, n3, w3) \<Rightarrow>
        children w3 = children w2 \<and> n3 = n2 \<and> p2 = length (promises w2) \<and>
        promise_outcome w3 p2 = promise_outcome w3 p1 \<and>
        p1 = 1 \<and> p2 = 2 \<and> promise_outcome w3 p1 = Fulfilled"
proof -
  have "children w3 = children w2 \<and> n3 = n2 \<and> p2 = length (promises w2) \<and>
        promise_outcome w3 p2 = promise_outcome w3 p1 \<and>
        p1 = 1 \<and> p2 = 2 \<and> promise_outcome w3 p1 = Fulfilled"
    if f: "demo_first_start = (p1, n1, w1)"
      and m: "kt_run [ChildEmits 0 (Message (JStr ''ready''))] (n1, w1) = (n2, w2)"
      and l: "KTNodeProcess_start (Some (JsError ''spawn'')) ''/tmp/other.sock'' None n2 w2 = (p2, n3, w3)"
    for p1 n1 w1 n2 w2 p2 n3 w3
  proof -
    have first: "KTNodeProcess_start None ''/tmp/abc.sock'' (Some ''/proj'')
         (new_KTNodeProcess ''ext.process.js'' ''ext.host.js'') (boot_world Map.empty False)
       = (p1, n1, w1)"
      using f by (simp only: demo_first_start_def)
    note shared = later_start_shares_the_first_outcome [OF first m l]
    from shared have "promise_outcome (snd (kt_run [] (n3, w3))) p2 =
               promise_outcome (snd (kt_run [] (n3, w3))) p1"
      by (elim conjE allE)
    then have same: "promise_outcome w3 p2 = promise_outcome w3 p1"
      by (simp add: kt_run_def)
    have p1: "p1 = 1"
      using demo_first_start_promise [unfolded f] by simp
    have n2: "n2 = n1" and w2: "w2 = child_emit 0 (Message (JStr ''ready'')) w1"
      using m demo_ready_message [unfolded f] by simp_all
    have w2p: "promises w2 = [Settles Fulfilled, Follows 0]"
      using w2 demo_ready_message_promises [unfolded f] by simp
    have r: "kt_ready n2 = Some 0"
      using n2 demo_first_start_ready [unfolded f] by simp
    have w3: "w3 = w2\<lparr>promises := promises w2 @ [Follows 0]\<rparr>" and p2: "p2 = 2"
      using l start_again [OF r, of "Some (JsError ''spawn'')" "''/tmp/other.sock''" None w2] w2p
      by simp_all
    have "promise_outcome w3 p1 = Fulfilled"
      using w3 w2p p1 by (simp add: promise_outcome_def)
    with shared same p1 p2 show ?thesis by (elim conjE) (intro conjI)
  qed
  then show ?thesis
    by (simp only: split: prod.splits) blast
qed

text \<open>
  C2, as the claim has it, fails: the promise that the second call returns is not
  the promise that the first call returned.
\<close>

theorem second_start_returns_another_promise:
  "fst (KTNodeProcess_start None ''/tmp/abc.sock'' (Some ''/proj'')
          (fst (snd demo_first_start)) (snd (snd demo_first_start)))
   \<noteq> fst demo_first_start"
  by (simp add: demo_first_start_def start_fresh_forks start_again boot_world_def)

section \<open>The states of the window at work\<close>

lemmas model_defs =
  step_def run_microtasks_def resume_settled_def CodeWindow_start_resume_def
  CodeWindow_start_def CodeWindow_clear_def CodeWindow_dispose_def KTNodeProcess_dispose_def
  kill_def KTNodeProcess_start_def create_ready_def new_KTNodeProcess_def
  child_emit_def settle_def finish_def promise_outcome_def bindEvents_def
  emit_did_finish_load_def boot_def boot_world_def new_CodeWindow_def Let_def

lemma demo_started_eq:
  "demo_started =
     demo_boot
       \<lparr>host := (host demo_boot)
           \<lparr>promises := [Returns Pending, Settles Pending, Follows 1],
            children := [\<lparr>cp_call = build_fork_call (host demo_boot)
                              (new_KTNodeProcess ''ext.process.js'' ''ext.host.js'')
                              ''/tmp/abc.sock'' (Some ''/proj''),
                           cp_killed = False, cp_settles = 1\<rparr>]\<rparr>,
        window := (window demo_boot)
           \<lparr>node := Some \<lparr>kt_forkPath = ''ext.process.js'', kt_extensionEntry = ''ext.host.js'',
                           kt_process = Some 0, kt_ready = Some 1\<rparr>\<rparr>,
        suspended := [\<lparr>awaits = 2, rpcListenPath_of = ''/tmp/abc.sock'', returns = 0\<rparr>]\<rparr>"
  by (simp add: demo_started_def demo_boot_def demo_config_def model_defs build_fork_call_def)

lemma demo_running_browser:
  "browser (window demo_running) =
     (browser (window demo_boot))
       \<lparr>bw_loaded := [''file:///app/index.html''], bw_shown := True,
        bw_on_did_finish_load := [''/tmp/abc.sock''], bw_on_new_window := 1\<rparr>"
  by (simp add: demo_running_def demo_started_eq)
     (simp add: demo_boot_def demo_config_def model_defs)

lemma demo_running_eq:
  "demo_running =
     demo_started
       \<lparr>host := (host demo_started)
           \<lparr>promises := [Returns Fulfilled, Settles Fulfilled, Follows 1],
            logged := [ConsoleLog (JStr ''ready''),
                       LoggerLog [''starting browser window with url: '', ''file:///app/index.html'']]\<rparr>,
        window := (window demo_started)
           \<lparr>browser := (browser (window demo_boot))
              \<lparr>bw_loaded := [''file:///app/index.html''], bw_shown := True,
               bw_on_did_finish_load := [''/tmp/abc.sock''], bw_on_new_window := 1\<rparr>\<rparr>,
        suspended := []\<rparr>"
  by (simp add: demo_running_def demo_started_eq)
     (simp add: demo_boot_def demo_config_def model_defs)

lemma demo_rejected_eq:
  "demo_rejected =
     demo_started\<lparr>host := (host demo_started)
       \<lparr>promises := [Returns Pending, Settles (Rejected (JsError ''boom'')), Follows 1]\<rparr>\<rparr>"
  by (simp add: demo_rejected_def demo_started_eq)
     (simp add: child_emit_def settle_def)

section \<open>Links that open a new window\<close>

lemma indexOf_from_ge: "indexOf_from s pat i = - 1 \<or> int i \<le> indexOf_from s pat i"
  by (induction s arbitrary: i) (auto, force)

lemma indexOf_zero_iff: "indexOf s pat = 0 \<longleftrightarrow> prefix pat s"
proof (cases s)
  case Nil
  then show ?thesis by (simp add: indexOf_def)
next
  case (Cons c cs)
  show ?thesis using indexOf_from_ge [of cs pat "Suc 0"] Cons
    by (auto simp: indexOf_def)
qed

lemma new_window_listener_fresh:
  "\<not> defaultPrevented event \<Longrightarrow>
   new_window_listener url (event, external) =
     (event\<lparr>defaultPrevented := True\<rparr>,
      if prefix ''http'' url then external @ [url] else external)"
  by (simp add: new_window_listener_def indexOf_zero_iff)

lemma new_window_listener_prevented:
  "defaultPrevented event \<Longrightarrow> new_window_listener url (event, external) = (event, external)"
  by (simp add: new_window_listener_def)

lemma new_window_listeners_prevented:
  "defaultPrevented event \<Longrightarrow>
   (new_window_listener url ^^ n) (event, external) = (event, external)"
  by (induction n) (simp_all add: new_window_listener_prevented)

lemma new_window_listeners_fresh:
  "\<not> defaultPrevented event \<Longrightarrow>
   (new_window_listener url ^^ Suc n) (event, external) =
     (event\<lparr>defaultPrevented := True\<rparr>,
      if prefix ''http'' url then external @ [url] else external)"
proof -
  assume fresh: "\<not> defaultPrevented event"
  have "(new_window_listener url ^^ Suc n) (event, external) =
        (new_window_listener url ^^ n) (new_window_listener url (event, external))"
    by (simp only: funpow_Suc_right o_apply)
  also have "\<dots> = (new_window_listener url ^^ n)
      (event\<lparr>defaultPrevented := True\<rparr>,
       if prefix ''http'' url then external @ [url] else external)"
    by (simp only: new_window_listener_fresh [OF fresh])
  also have "\<dots> = (event\<lparr>defaultPrevented := True\<rparr>,
       if prefix ''http'' url then external @ [url] else external)"
    by (rule new_window_listeners_prevented) simp
  finally show ?thesis .
qed

text \<open>
  C10. On a \<^verbatim>\<open>'new-window'\<close> event that is not default-prevented yet, the listener of
  \<^verbatim>\<open>bindEvents\<close> always prevents the default, and gives the URL to
  \<^verbatim>\<open>shell.openExternal\<close> exactly when \<^verbatim>\<open>'http'\<close> is a prefix of it: any other URL is
  dropped, any string that begins with \<^verbatim>\<open>http\<close> is opened externally. So once
  \<^verbatim>\<open>bindEvents\<close> has run, such an event changes nothing of the window, whatever the
  number of listeners, and opens the URL externally once or not at all.
\<close>

theorem new_window_is_prevented_and_http_prefix_opened_externally:
  "(\<not> defaultPrevented event \<longrightarrow>
      new_window_listener url (event, external) =
        (event\<lparr>defaultPrevented := True\<rparr>,
         if prefix ''http'' url then external @ [url] else external)) \<and>
   (0 < bw_on_new_window (browser (window s)) \<longrightarrow>
      emit_new_window False url s =
        s\<lparr>openExternal := (if prefix ''http'' url then openExternal s @ [url]
                            else openExternal s)\<rparr>)"
proof (intro conjI impI)
  assume "\<not> defaultPrevented event"
  then show "new_window_listener url (event, external) =
        (event\<lparr>defaultPrevented := True\<rparr>,
         if prefix ''http'' url then external @ [url] else external)"
    by (rule new_window_listener_fresh)
next
  assume "0 < bw_on_new_window (browser (window s))"
  then obtain n where n: "bw_on_new_window (browser (window s)) = Suc n"
    by (cases "bw_on_new_window (browser (window s))") auto
  show "emit_new_window False url s =
        s\<lparr>openExternal := (if prefix ''http'' url then openExternal s @ [url]
                            else openExternal s)\<rparr>"
    unfolding emit_new_window_def Let_def n
    by (subst new_window_listeners_fresh) simp_all
qed

theorem new_window_is_prevented_and_http_prefix_opened_externally_witness:
  "\<not> defaultPrevented \<lparr>defaultPrevented = False\<rparr> \<and>
   new_window_listener ''httpx://example.org'' (\<lparr>defaultPrevented = False\<rparr>, []) =
     (\<lparr>defaultPrevented = True\<rparr>, [''httpx://example.org'']) \<and>
   new_window_listener ''file:///etc/hosts'' (\<lparr>defaultPrevented = False\<rparr>, []) =
     (\<lparr>defaultPrevented = True\<rparr>, []) \<and>
   0 < bw_on_new_window (browser (window demo_running)) \<and>
   emit_new_window False ''https://example.org'' demo_running =
     demo_running\<lparr>openExternal := [''https://example.org'']\<rparr> \<and>
   emit_new_window False ''mailto:a@example.org'' demo_running = demo_running"
proof -
  have fresh: "\<not> defaultPrevented \<lparr>defaultPrevented = False\<rparr>"
    by simp
  have bound: "0 < bw_on_new_window (browser (window demo_running))"
    by (simp add: demo_running_browser)
  have ext: "openExternal demo_running = []"
    by (simp add: demo_running_def demo_started_eq)
       (simp add: demo_boot_def demo_config_def model_defs)
  show ?thesis
    using fresh bound ext
      new_window_is_prevented_and_http_prefix_opened_externally
        [of "\<lparr>defaultPrevented = False\<rparr>" "''httpx://example.org''" "[]" demo_running]
      new_window_is_prevented_and_http_prefix_opened_externally
        [of "\<lparr>defaultPrevented = False\<rparr>" "''file:///etc/hosts''" "[]" demo_running]
      new_window_is_prevented_and_http_prefix_opened_externally
        [of "\<lparr>defaultPrevented = False\<rparr>" "''https://example.org''" "[]" demo_running]
      new_window_is_prevented_and_http_prefix_opened_externally
        [of "\<lparr>defaultPrevented = False\<rparr>" "''mailto:a@example.org''" "[]" demo_running]
    by simp
qed


section \<open>The metadata channel\<close>

lemma emit_window_metadata_Nil [simp]:
  "emit_window_metadata stringify uri_file [] windowId event = event"
  by (simp add: emit_window_metadata_def)

lemma emit_window_metadata_Cons:
  "emit_window_metadata stringify uri_file (cw # cws) windowId event =
     emit_window_metadata stringify uri_file cws windowId
       (if ipc_listening cw then metadataResponser stringify uri_file cw windowId event else event)"
  by (simp add: emit_window_metadata_def)

lemma metadataResponser_other:
  "windowId \<noteq> JNum (bw_id (browser cw)) \<Longrightarrow>
   metadataResponser stringify uri_file cw windowId event = event"
  by (simp add: metadataResponser_def)

lemma emit_window_metadata_agree:
  "list_all2 (\<lambda>a b. a = b \<or>
       (windowId \<noteq> JNum (bw_id (browser a)) \<and> windowId \<noteq> JNum (bw_id (browser b)))) cws cws' \<Longrightarrow>
   emit_window_metadata stringify uri_file cws windowId event =
   emit_window_metadata stringify uri_file cws' windowId event"
proof (induction cws cws' arbitrary: event rule: list_all2_induct)
  case Nil
  then show ?case by simp
next
  case (Cons a cws b cws')
  then show ?case
    by (auto simp: emit_window_metadata_Cons metadataResponser_other)
qed

text \<open>
  C7. The listener of a window whose id is not the identity of the query leaves the
  event as it is, so it sets no \<^verbatim>\<open>returnValue\<close>. Hence the answer to a query for an
  identity is the same for two lists of windows that differ only in windows of other
  ids, whatever their workspaces, metadata and configurations are: no field of another
  window reaches the answer.
\<close>

theorem metadata_answer_depends_on_the_queried_window_only:
  "(windowId \<noteq> JNum (bw_id (browser cw)) \<longrightarrow>
      metadataResponser stringify uri_file cw windowId event = event) \<and>
   (list_all2 (\<lambda>a b. a = b \<or>
        (windowId \<noteq> JNum (bw_id (browser a)) \<and> windowId \<noteq> JNum (bw_id (browser b))))
      cws cws' \<longrightarrow>
    emit_window_metadata stringify uri_file cws windowId event =
    emit_window_metadata stringify uri_file cws' windowId event)"
  using metadataResponser_other emit_window_metadata_agree by blast

theorem metadata_answer_depends_on_the_queried_window_only_witness:
  "JNum 1 \<noteq> JNum (bw_id (browser (new_CodeWindow demo_config False 2 (Some ''/other'') None))) \<and>
   metadataResponser demo_stringify id (new_CodeWindow demo_config False 2 (Some ''/other'') None)
     (JNum 1) \<lparr>returnValue = None\<rparr> = \<lparr>returnValue = None\<rparr> \<and>
   emit_window_metadata demo_stringify id
     [new_CodeWindow demo_config False 1 (Some ''/proj'') None,
      new_CodeWindow demo_config False 2 (Some ''/other'') None]
     (JNum 1) \<lparr>returnValue = None\<rparr> =
   emit_window_metadata demo_stringify id
     [new_CodeWindow demo_config False 1 (Some ''/proj'') None,
      new_CodeWindow demo_config True 3 (Some ''/secret'') (Some [(''workspace'', JStr ''/leak'')])]
     (JNum 1) \<lparr>returnValue = None\<rparr> \<and>
   emit_window_metadata demo_stringify id
     [new_CodeWindow demo_config False 1 (Some ''/proj'') None,
      new_CodeWindow demo_config True 3 (Some ''/secret'') (Some [(''workspace'', JStr ''/leak'')])]
     (JNum 1) \<lparr>returnValue = None\<rparr> = \<lparr>returnValue = Some ''/proj''\<rparr>"
proof -
  let ?w1 = "new_CodeWindow demo_config False 1 (Some ''/proj'') None"
  let ?w2 = "new_CodeWindow demo_config False 2 (Some ''/other'') None"
  let ?w3 = "new_CodeWindow demo_config True 3 (Some ''/secret'') (Some [(''workspace'', JStr ''/leak'')])"
  have other: "JNum 1 \<noteq> JNum (bw_id (browser ?w2))"
    by (simp add: new_CodeWindow_def)
  have rel: "list_all2 (\<lambda>a b. a = b \<or>
        (JNum 1 \<noteq> JNum (bw_id (browser a)) \<and> JNum 1 \<noteq> JNum (bw_id (browser b))))
      [?w1, ?w2] [?w1, ?w3]"
    by (simp add: new_CodeWindow_def)
  have val: "emit_window_metadata demo_stringify id [?w1, ?w3] (JNum 1) \<lparr>returnValue = None\<rparr>
      = \<lparr>returnValue = Some ''/proj''\<rparr>"
    by (simp add: emit_window_metadata_def metadataResponser_def metadata_object_def spread_def
        own_property_order_def array_index_def is_digit_def
        new_CodeWindow_def demo_stringify_def demo_config_def)
  show ?thesis
    using other rel val
      metadata_answer_depends_on_the_queried_window_only
        [of "JNum 1" ?w2 demo_stringify id "\<lparr>returnValue = None\<rparr>" "[?w1, ?w2]" "[?w1, ?w3]"]
    by simp
qed

section \<open>The promise of start is never rejected\<close>

lemma unrejected_outcome:
  "unrejected r w \<Longrightarrow> promise_outcome w r \<noteq> Rejected e"
  by (auto simp: unrejected_def promise_outcome_def)

lemma unrejected_settle: "unrejected r w \<Longrightarrow> unrejected r (settle q v w)"
  by (auto simp: unrejected_def settle_def nth_list_update)

lemma unrejected_finish: "unrejected r w \<Longrightarrow> unrejected r (finish q Fulfilled w)"
  by (auto simp: unrejected_def finish_def nth_list_update)

lemma unrejected_logged [simp]: "unrejected r (w\<lparr>logged := l\<rparr>) = unrejected r w"
  by (simp add: unrejected_def)

lemma unrejected_children [simp]: "unrejected r (w\<lparr>children := cs\<rparr>) = unrejected r w"
  by (simp add: unrejected_def)

lemma unrejected_append:
  "unrejected r w \<Longrightarrow> unrejected r (w\<lparr>promises := promises w @ cells\<rparr>)"
  by (auto simp: unrejected_def nth_append)

lemma unrejected_child_emit: "unrejected r w \<Longrightarrow> unrejected r (child_emit pid ev w)"
  by (auto simp: child_emit_def Let_def unrejected_settle split: child_event.splits)

lemma unrejected_kill: "unrejected r w \<Longrightarrow> unrejected r (kill pid w)"
  by (simp add: kill_def)

lemma unrejected_KTNodeProcess_dispose:
  "unrejected r w \<Longrightarrow> unrejected r (KTNodeProcess_dispose n w)"
  by (simp add: KTNodeProcess_dispose_def unrejected_kill split: option.splits)

lemma unrejected_create_ready:
  "unrejected r w \<Longrightarrow> unrejected r (snd (snd (create_ready ft path ws n w)))"
  by (cases ft) (simp_all add: create_ready_def Let_def unrejected_append unrejected_settle)

lemma unrejected_KTNodeProcess_start:
  "unrejected r w \<Longrightarrow> unrejected r (snd (snd (KTNodeProcess_start ft path ws n w)))"
proof (cases "kt_ready n")
  case None
  assume u: "unrejected r w"
  obtain q n1 w1 where c: "create_ready ft path ws n w = (q, n1, w1)"
    by (cases "create_ready ft path ws n w")
  then have "unrejected r w1"
    using unrejected_create_ready [OF u, of ft path ws n] by simp
  then show ?thesis
    using None c by (simp add: KTNodeProcess_start_def unrejected_append)
next
  case (Some q)
  assume "unrejected r w"
  then show ?thesis
    using Some by (simp add: KTNodeProcess_start_def unrejected_append)
qed

lemma unrejected_clear:
  "unrejected r (host s) \<Longrightarrow> unrejected r (host (CodeWindow_clear s))"
  by (simp add: CodeWindow_clear_def unrejected_KTNodeProcess_dispose split: option.splits)

lemma unrejected_dispose:
  "unrejected r (host s) \<Longrightarrow> unrejected r (host (CodeWindow_dispose s))"
  by (simp add: CodeWindow_dispose_def Let_def unrejected_clear)

lemma host_clear_promises [simp]:
  "promises (host (CodeWindow_clear s)) = promises (host s)"
  by (simp add: CodeWindow_clear_def KTNodeProcess_dispose_def kill_def split: option.splits)

lemma CodeWindow_start_host:
  "host (snd (CodeWindow_start ft path s)) =
     snd (snd (KTNodeProcess_start ft path (workspace (window s))
        (new_KTNodeProcess (nodeEntry (appConfig (window s))) (extensionEntry (appConfig (window s))))
        (host (CodeWindow_clear
           (s\<lparr>host := (host s)\<lparr>promises := promises (host s) @ [Returns Pending]\<rparr>\<rparr>)))))"
  by (simp add: CodeWindow_start_def Let_def CodeWindow_clear_def split: prod.splits option.splits)

lemma unrejected_start:
  "unrejected r (host s) \<Longrightarrow> unrejected r (host (snd (CodeWindow_start ft path s)))"
  by (simp only: CodeWindow_start_host)
     (intro unrejected_KTNodeProcess_start unrejected_clear, simp add: unrejected_append)

lemma start_result_unrejected:
  "unrejected (fst (CodeWindow_start ft path s)) (host (snd (CodeWindow_start ft path s)))"
proof -
  let ?s0 = "s\<lparr>host := (host s)\<lparr>promises := promises (host s) @ [Returns Pending]\<rparr>\<rparr>"
  have "unrejected (length (promises (host s))) (host ?s0)"
    by (simp add: unrejected_def)
  then have "unrejected (length (promises (host s))) (host (CodeWindow_clear ?s0))"
    by (rule unrejected_clear)
  then have "unrejected (length (promises (host s))) (host (snd (CodeWindow_start ft path s)))"
    by (simp only: CodeWindow_start_host) (rule unrejected_KTNodeProcess_start)
  moreover have "fst (CodeWindow_start ft path s) = length (promises (host s))"
    by (simp add: CodeWindow_start_def Let_def split: prod.splits)
  ultimately show ?thesis by simp
qed

lemma unrejected_resume:
  "unrejected r (host s) \<Longrightarrow> unrejected r (host (CodeWindow_start_resume out k s))"
  by (cases out) (simp_all add: CodeWindow_start_resume_def Let_def unrejected_finish)

lemma unrejected_resume_settled:
  "unrejected r (host s) \<Longrightarrow> unrejected r (host (resume_settled k s))"
  by (simp add: resume_settled_def unrejected_resume split: promise_state.splits)

lemma unrejected_fold_resume:
  "unrejected r (host s) \<Longrightarrow> unrejected r (host (fold resume_settled ks s))"
  by (induction ks arbitrary: s) (simp_all add: unrejected_resume_settled)

lemma unrejected_run_microtasks:
  "unrejected r (host s) \<Longrightarrow> unrejected r (host (run_microtasks s))"
  by (simp add: run_microtasks_def unrejected_fold_resume)

lemma unrejected_perform:
  "unrejected r (host s) \<Longrightarrow> unrejected r (host (perform a s))"
  by (cases a)
     (simp_all add: unrejected_start unrejected_clear unrejected_dispose unrejected_child_emit
        emit_new_window_def Let_def split: prod.splits)

lemma unrejected_step:
  "unrejected r (host s) \<Longrightarrow> unrejected r (host (step a s))"
  by (simp add: step_def unrejected_run_microtasks unrejected_perform)

lemma unrejected_run:
  "unrejected r (host s) \<Longrightarrow> unrejected r (host (run acts s))"
  unfolding run_def by (induction acts arbitrary: s) (simp_all add: unrejected_step)


lemma finish_children [simp]: "children (finish r v w) = children w"
  by (simp add: finish_def)

lemma finish_logged [simp]: "logged (finish r v w) = logged w"
  by (simp add: finish_def)

lemma resume_settled_rejected:
  "promise_outcome (host s) (awaits k) = Rejected e \<Longrightarrow>
   resume_settled k s =
     s\<lparr>host := finish (returns k) Fulfilled
                  ((host s)\<lparr>logged := logged (host s) @ [LoggerErrorObject e]\<rparr>)\<rparr>"
  by (simp add: resume_settled_def CodeWindow_start_resume_def)

section \<open>The push of the transport address\<close>


lemma did_finish_load_keeps [simp]:
  "bw_on_did_finish_load (emit_did_finish_load b) = bw_on_did_finish_load b"
  by (simp add: emit_did_finish_load_def)






section \<open>One extension host for a window\<close>

lemma kill_length [simp]: "length (children (kill pid w)) = length (children w)"
  by (simp add: kill_def)

lemma kill_nth:
  "q < length (children w) \<Longrightarrow>
   cp_killed (children (kill pid w) ! q) = (q = pid \<or> cp_killed (children w ! q))"
  by (auto simp: kill_def nth_list_update)

lemma owned_clear_all_killed:
  "owned s \<Longrightarrow> all_killed (host (CodeWindow_clear s))"
  by (auto simp: owned_def all_killed_def list_all_length CodeWindow_clear_def
      KTNodeProcess_dispose_def kill_nth split: option.splits)

lemma all_killed_owned: "all_killed (host s) \<Longrightarrow> owned s"
  by (simp add: owned_def all_killed_def list_all_length)

lemma node_clear [simp]: "node (window (CodeWindow_clear s)) = None"
  by (simp add: CodeWindow_clear_def split: option.splits)

lemma node_dispose [simp]: "node (window (CodeWindow_dispose s)) = None"
  by (simp add: CodeWindow_dispose_def Let_def)

lemma owned_clear: "owned s \<Longrightarrow> owned (CodeWindow_clear s)"
  by (rule all_killed_owned) (rule owned_clear_all_killed)

lemma owned_dispose: "owned s \<Longrightarrow> owned (CodeWindow_dispose s)"
  using owned_clear [of s] by (simp add: CodeWindow_dispose_def Let_def owned_def)

lemma start_fresh_children:
  "children (snd (snd (KTNodeProcess_start ft path ws (new_KTNodeProcess fp ee) w))) =
     children w @
       (case ft of
          None \<Rightarrow> [\<lparr>cp_call = build_fork_call w (new_KTNodeProcess fp ee) path ws,
                   cp_killed = False, cp_settles = length (promises w)\<rparr>]
        | Some e \<Rightarrow> [])"
  by (cases ft) (simp_all add: start_fresh_forks start_fresh_throws)

lemma start_fresh_process:
  "kt_process (fst (snd (KTNodeProcess_start ft path ws (new_KTNodeProcess fp ee) w))) =
     (case ft of None \<Rightarrow> Some (length (children w)) | Some e \<Rightarrow> None)"
  by (cases ft) (simp_all add: start_fresh_forks start_fresh_throws)

lemma CodeWindow_start_node:
  "node (window (snd (CodeWindow_start ft path s))) =
     Some (fst (snd (KTNodeProcess_start ft path (workspace (window s))
        (new_KTNodeProcess (nodeEntry (appConfig (window s))) (extensionEntry (appConfig (window s))))
        (host (CodeWindow_clear
           (s\<lparr>host := (host s)\<lparr>promises := promises (host s) @ [Returns Pending]\<rparr>\<rparr>))))))"
  by (auto simp: CodeWindow_start_def Let_def CodeWindow_clear_def split: prod.splits option.splits)

lemma clear_children_promises [simp]:
  "children (host (CodeWindow_clear (s\<lparr>host := (host s)\<lparr>promises := ps\<rparr>\<rparr>))) =
     children (host (CodeWindow_clear s))"
  by (simp add: CodeWindow_clear_def KTNodeProcess_dispose_def kill_def split: option.splits)

lemma clear_children_length [simp]:
  "length (children (host (CodeWindow_clear s))) = length (children (host s))"
  by (simp add: CodeWindow_clear_def KTNodeProcess_dispose_def split: option.splits)

lemma owned_start: 
  assumes "owned s"
  shows "owned (snd (CodeWindow_start ft path s))"
proof -
  let ?s' = "snd (CodeWindow_start ft path s)"
  let ?old = "children (host (CodeWindow_clear s))"
  have killed: "list_all cp_killed ?old"
    using owned_clear_all_killed [OF assms] by (simp add: all_killed_def)
  obtain n where n: "node (window ?s') = Some n"
    and proc: "kt_process n = (case ft of None \<Rightarrow> Some (length ?old) | Some e \<Rightarrow> None)"
    by (cases ft) (simp_all add: CodeWindow_start_node start_fresh_process)
  obtain new where ch: "children (host ?s') = ?old @ new" and new: "length new \<le> 1"
    and ft: "new \<noteq> [] \<Longrightarrow> ft = None"
    by (cases ft) (simp_all add: CodeWindow_start_host start_fresh_children)
  show ?thesis
    unfolding owned_def
  proof (intro allI impI)
    fix pid
    assume pid: "pid < length (children (host ?s'))"
      and live: "\<not> cp_killed (children (host ?s') ! pid)"
    have "\<not> pid < length ?old"
      using killed live ch by (auto simp: list_all_length nth_append)
    then have "pid = length ?old" and "new \<noteq> []"
      using pid ch new by auto
    then show "\<exists>n. node (window ?s') = Some n \<and> kt_process n = Some pid"
      using n proc ft by simp
  qed
qed

lemma resume_children_node [simp]:
  "children (host (CodeWindow_start_resume out k s)) = children (host s)"
  "node (window (CodeWindow_start_resume out k s)) = node (window s)"
  by (cases out; simp add: CodeWindow_start_resume_def Let_def)+

lemma owned_resume: "owned s \<Longrightarrow> owned (CodeWindow_start_resume out k s)"
  by (simp add: owned_def)

lemma owned_resume_settled: "owned s \<Longrightarrow> owned (resume_settled k s)"
  by (simp add: resume_settled_def owned_resume split: promise_state.splits)
     (simp add: owned_def)

lemma owned_fold_resume: "owned s \<Longrightarrow> owned (fold resume_settled ks s)"
  by (induction ks arbitrary: s) (simp_all add: owned_resume_settled)

lemma owned_run_microtasks: "owned s \<Longrightarrow> owned (run_microtasks s)"
  unfolding run_microtasks_def by (rule owned_fold_resume) (simp add: owned_def)

lemma owned_perform: "owned s \<Longrightarrow> owned (perform a s)"
proof (cases a)
  case (Start ft path)
  assume "owned s"
  then show ?thesis using Start by (simp add: owned_start)
next
  case (NewWindow prevented url)
  assume "owned s"
  then show ?thesis using NewWindow
    by (simp add: owned_def emit_new_window_def Let_def split: prod.splits)
qed (simp_all add: owned_clear owned_dispose, simp_all add: owned_def)

lemma owned_step: "owned s \<Longrightarrow> owned (step a s)"
  by (simp add: step_def owned_run_microtasks owned_perform)

lemma owned_run: "owned s \<Longrightarrow> owned (run acts s)"
  unfolding run_def by (induction acts arbitrary: s) (simp_all add: owned_step)

lemma owned_boot: "owned (boot penv dev cfg isOSX browser_id ws md)"
  by (simp add: owned_def boot_def boot_world_def)

lemma at_most_one:
  "(\<And>i j. i < length xs \<Longrightarrow> j < length xs \<Longrightarrow> P (xs ! i) \<Longrightarrow> P (xs ! j) \<Longrightarrow> i = j) \<Longrightarrow>
   length (filter P xs) \<le> 1"
proof (induction xs)
  case Nil
  then show ?case by simp
next
  case (Cons x xs)
  have rest: "length (filter P xs) \<le> 1"
  proof (rule Cons.IH)
    fix i j
    assume "i < length xs" "j < length xs" "P (xs ! i)" "P (xs ! j)"
    then show "i = j"
      using Cons.prems [of "Suc i" "Suc j"] by simp
  qed
  show ?case
  proof (cases "P x")
    case True
    have "\<not> P y" if "y \<in> set xs" for y
    proof
      assume py: "P y"
      from that obtain i where "i < length xs" "xs ! i = y"
        by (auto simp: in_set_conv_nth)
      then show False
        using Cons.prems [of 0 "Suc i"] True py by simp
    qed
    then have "filter P xs = []"
      by (simp add: filter_empty_conv)
    then show ?thesis using True by simp
  next
    case False
    then show ?thesis using rest by simp
  qed
qed

lemma owned_live:
  assumes "owned s"
  shows "length (live_children (host s)) \<le> 1"
  unfolding live_children_def
proof (rule at_most_one)
  fix i j
  assume "i < length (children (host s))" "\<not> cp_killed (children (host s) ! i)"
    and "j < length (children (host s))" "\<not> cp_killed (children (host s) ! j)"
  then have "\<exists>n. node (window s) = Some n \<and> kt_process n = Some i"
    and "\<exists>n. node (window s) = Some n \<and> kt_process n = Some j"
    using assms unfolding owned_def by blast+
  then show "i = j" by auto
qed


lemma start_kills_old:
  assumes "node (window s) = Some old" "kt_process old = Some pid"
    "pid < length (children (host s))"
  shows "cp_killed (children (host (snd (CodeWindow_start ft path s))) ! pid)"
proof -
  have "cp_killed (children (host (CodeWindow_clear s)) ! pid)"
    using assms by (simp add: CodeWindow_clear_def KTNodeProcess_dispose_def kill_nth)
  then show ?thesis
    using assms(3) by (simp add: CodeWindow_start_host start_fresh_children nth_append)
qed

text \<open>
  C5. In every state that a window reaches from its construction, by calls of
  \<^verbatim>\<open>start\<close>, \<^verbatim>\<open>clear\<close> and \<^verbatim>\<open>dispose\<close> and by events of the children and of the browser
  in any order, at most one child has not been killed, and that child is the process of
  the \<^verbatim>\<open>KTNodeProcess\<close> in \<^verbatim>\<open>this.node\<close>. \<^verbatim>\<open>clear()\<close> and \<^verbatim>\<open>dispose()\<close> leave
  \<^verbatim>\<open>this.node\<close> null, and \<^verbatim>\<open>start()\<close> kills the process of the \<^verbatim>\<open>KTNodeProcess\<close> it
  finds in \<^verbatim>\<open>this.node\<close> before it forks.
\<close>

theorem window_owns_at_most_one_live_process:
  "length (live_children (host (run acts (boot penv dev cfg isOSX browser_id ws md)))) \<le> 1 \<and>
   owned (run acts (boot penv dev cfg isOSX browser_id ws md)) \<and>
   node (window (CodeWindow_clear s)) = None \<and>
   node (window (CodeWindow_dispose s)) = None \<and>
   (node (window s) = Some old \<and> kt_process old = Some pid \<and>
    pid < length (children (host s)) \<longrightarrow>
      cp_killed (children (host (snd (CodeWindow_start fork_throws path s))) ! pid))"
  using owned_live [OF owned_run [OF owned_boot]] owned_run [OF owned_boot] start_kills_old
  by simp

lemma demo_running_node:
  "node (window demo_running) =
     Some \<lparr>kt_forkPath = ''ext.process.js'', kt_extensionEntry = ''ext.host.js'',
           kt_process = Some 0, kt_ready = Some 1\<rparr>"
  by (simp add: demo_running_eq demo_started_eq)

lemma demo_restart_children:
  "map cp_killed (children (host (snd (CodeWindow_start None ''/tmp/def.sock'' demo_running))))
     = [True, False]"
  by (simp add: CodeWindow_start_host start_fresh_children)
     (simp add: demo_running_eq demo_started_eq CodeWindow_clear_def KTNodeProcess_dispose_def
        kill_def)

theorem window_owns_at_most_one_live_process_witness:
  "node (window demo_running) =
     Some \<lparr>kt_forkPath = ''ext.process.js'', kt_extensionEntry = ''ext.host.js'',
           kt_process = Some 0, kt_ready = Some 1\<rparr> \<and>
   0 < length (children (host demo_running)) \<and>
   cp_killed (children (host (snd (CodeWindow_start None ''/tmp/def.sock'' demo_running))) ! 0) \<and>
   map cp_killed (children (host (snd (CodeWindow_start None ''/tmp/def.sock'' demo_running))))
     = [True, False] \<and>
   length (live_children (host (run
      [Start None ''/tmp/abc.sock'', Child 0 (Message (JStr ''ready'')),
       Start None ''/tmp/def.sock''] demo_boot))) \<le> 1"
proof -
  let ?old = "\<lparr>kt_forkPath = ''ext.process.js'', kt_extensionEntry = ''ext.host.js'',
           kt_process = Some 0, kt_ready = Some 1\<rparr>"
  have len: "0 < length (children (host demo_running))"
    by (simp add: demo_running_eq demo_started_eq)
  show ?thesis
    using demo_running_node len demo_restart_children
      window_owns_at_most_one_live_process
        [where s = demo_running and old = ?old and pid = 0 and fork_throws = None
           and path = "''/tmp/def.sock''" and penv = Map.empty and dev = False
           and cfg = demo_config and isOSX = False and browser_id = 1 and ws = "Some ''/proj''"
           and md = None
           and acts = "[Start None ''/tmp/abc.sock'', Child 0 (Message (JStr ''ready'')),
               Start None ''/tmp/def.sock'']"]
    by (simp add: demo_boot_def)
qed

section \<open>A start that fails\<close>

lemma keeps_refl [simp]: "keeps_launchers w w"
  by (simp add: keeps_launchers_def)

lemma keeps_trans:
  "keeps_launchers w w' \<Longrightarrow> keeps_launchers w' w'' \<Longrightarrow> keeps_launchers w w''"
  unfolding keeps_launchers_def
  by (metis (no_types, lifting) le_trans less_le_trans)

lemma keeps_finish: "keeps_launchers w (finish r v w)"
  by (auto simp: keeps_launchers_def finish_def nth_list_update)

lemma keeps_logged [simp]: "keeps_launchers w (w\<lparr>logged := l\<rparr>)"
  by (simp add: keeps_launchers_def)

lemma keeps_launcher:
  "keeps_launchers w w' \<Longrightarrow> launcher_promise w k \<Longrightarrow> launcher_promise w' k"
  by (auto simp: keeps_launchers_def launcher_promise_def split: promise_cell.splits)

lemma keeps_outcome:
  "keeps_launchers w w' \<Longrightarrow> launcher_promise w k \<Longrightarrow>
   promise_outcome w' (awaits k) = promise_outcome w (awaits k)"
  by (auto simp: keeps_launchers_def launcher_promise_def promise_outcome_def
      split: promise_cell.splits)

lemma keeps_resume: "keeps_launchers (host s) (host (CodeWindow_start_resume out k s))"
  by (cases out)
     (auto simp: CodeWindow_start_resume_def Let_def intro: keeps_trans [OF keeps_logged keeps_finish])

lemma keeps_resume_settled: "keeps_launchers (host s) (host (resume_settled k s))"
  by (simp add: resume_settled_def keeps_resume split: promise_state.splits)

lemma suspended_resume [simp]:
  "suspended (CodeWindow_start_resume out k s) = suspended s"
  by (cases out) (simp_all add: CodeWindow_start_resume_def Let_def)

lemma suspended_resume_settled:
  "suspended (resume_settled k s) =
     suspended s @ (if promise_outcome (host s) (awaits k) = Pending then [k] else [])"
  by (simp add: resume_settled_def split: promise_state.splits)

lemma fold_resume_settled:
  "list_all (launcher_promise (host s)) ks \<Longrightarrow>
   keeps_launchers (host s) (host (fold resume_settled ks s)) \<and>
   suspended (fold resume_settled ks s) =
     suspended s @ filter (\<lambda>k. promise_outcome (host s) (awaits k) = Pending) ks"
proof (induction ks arbitrary: s)
  case Nil
  then show ?case by simp
next
  case (Cons k ks)
  let ?s1 = "resume_settled k s"
  have keep: "keeps_launchers (host s) (host ?s1)"
    by (rule keeps_resume_settled)
  have all: "list_all (launcher_promise (host s)) ks"
    using Cons.prems by simp
  then have all1: "list_all (launcher_promise (host ?s1)) ks"
    by (auto simp: list_all_iff intro: keeps_launcher [OF keep])
  have same: "filter (\<lambda>k. promise_outcome (host ?s1) (awaits k) = Pending) ks =
              filter (\<lambda>k. promise_outcome (host s) (awaits k) = Pending) ks"
    using all by (intro filter_cong refl) (simp add: list_all_iff keeps_outcome [OF keep])
  show ?case
    using Cons.IH [OF all1] keep same
    by (auto simp: suspended_resume_settled intro: keeps_trans)
qed


lemma start_promises:
  "promises (host (snd (CodeWindow_start ft path s))) =
     promises (host s) @
       [Returns Pending,
        Settles (case ft of None \<Rightarrow> Pending | Some e \<Rightarrow> Rejected e),
        Follows (Suc (length (promises (host s))))]"
  by (cases ft) (simp_all add: CodeWindow_start_host start_fresh_forks start_fresh_throws)

lemma start_result: "fst (CodeWindow_start ft path s) = length (promises (host s))"
  by (simp add: CodeWindow_start_def Let_def split: prod.splits)

lemma start_suspended:
  "suspended (snd (CodeWindow_start ft path s)) =
     suspended s @
       [\<lparr>awaits = Suc (Suc (length (promises (host s)))), rpcListenPath_of = path,
         returns = length (promises (host s))\<rparr>]"
  by (cases ft)
     (auto simp: CodeWindow_start_def Let_def CodeWindow_clear_def start_fresh_forks
        start_fresh_throws KTNodeProcess_dispose_def kill_def split: option.splits)

lemma clear_frame [simp]:
  "browser (window (CodeWindow_clear s)) = browser (window s)"
  "logged (host (CodeWindow_clear s)) = logged (host s)"
  "openExternal (CodeWindow_clear s) = openExternal s"
  "suspended (CodeWindow_clear s) = suspended s"
  by (simp_all add: CodeWindow_clear_def KTNodeProcess_dispose_def kill_def split: option.splits)

lemma start_frame:
  "browser (window (snd (CodeWindow_start ft path s))) = browser (window s) \<and>
   logged (host (snd (CodeWindow_start ft path s))) = logged (host s) \<and>
   openExternal (snd (CodeWindow_start ft path s)) = openExternal s"
  by (cases ft)
     (auto simp: CodeWindow_start_def Let_def CodeWindow_clear_def start_fresh_forks
        start_fresh_throws KTNodeProcess_dispose_def kill_def split: option.splits)

lemma start_children_length:
  "length (children (host (snd (CodeWindow_start ft path s)))) =
     length (children (host s)) + (case ft of None \<Rightarrow> 1 | Some e \<Rightarrow> 0)"
  by (cases ft) (simp_all add: CodeWindow_start_host start_fresh_children)


lemma keeps_start: "keeps_launchers (host s) (host (snd (CodeWindow_start ft path s)))"
  by (simp add: keeps_launchers_def start_promises nth_append)

lemma launcher_new:
  "launcher_promise (host (snd (CodeWindow_start ft path s)))
     \<lparr>awaits = Suc (Suc (length (promises (host s)))), rpcListenPath_of = path,
      returns = length (promises (host s))\<rparr>"
  by (simp add: launcher_promise_def start_promises nth_append)

lemma launcher_child_emit:
  "launcher_promise w k \<Longrightarrow> launcher_promise (child_emit pid ev w) k"
  by (auto simp: launcher_promise_def child_emit_cell split: promise_cell.splits child_event.splits)

lemma promises_kill [simp]: "promises (kill pid w) = promises w"
  by (simp add: kill_def)

lemma launcher_kill [simp]: "launcher_promise (kill pid w) k = launcher_promise w k"
  by (auto simp: launcher_promise_def split: promise_cell.splits)

lemma launcher_clear [simp]:
  "launcher_promise (host (CodeWindow_clear s)) k = launcher_promise (host s) k"
  by (simp add: CodeWindow_clear_def KTNodeProcess_dispose_def split: option.splits)

lemma launchers_perform:
  assumes "list_all (launcher_promise (host s)) (suspended s)"
  shows "list_all (launcher_promise (host (perform a s))) (suspended (perform a s))"
proof (cases a)
  case (Start ft path)
  then show ?thesis
    using assms
    by (auto simp: start_suspended launcher_new list_all_iff intro: keeps_launcher [OF keeps_start])
next
  case (Child pid ev)
  then show ?thesis using assms by (auto simp: list_all_iff launcher_child_emit)
next
  case (NewWindow prevented url)
  then show ?thesis using assms
    by (simp add: emit_new_window_def Let_def split: prod.splits)
qed (use assms in \<open>simp_all add: CodeWindow_dispose_def Let_def list_all_iff\<close>)

lemma waiting_launchers: "waiting s \<Longrightarrow> list_all (launcher_promise (host s)) (suspended s)"
  by (simp add: waiting_def list_all_iff)

lemma waiting_run_microtasks:
  assumes "list_all (launcher_promise (host s)) (suspended s)"
  shows "waiting (run_microtasks s)"
proof -
  let ?s0 = "s\<lparr>suspended := []\<rparr>"
  have all: "list_all (launcher_promise (host ?s0)) (suspended s)"
    using assms by simp
  note f = fold_resume_settled [OF all]
  have keep: "keeps_launchers (host s) (host (run_microtasks s))"
    and susp: "suspended (run_microtasks s) =
      filter (\<lambda>k. promise_outcome (host s) (awaits k) = Pending) (suspended s)"
    using f by (simp_all add: run_microtasks_def)
  show ?thesis
    unfolding waiting_def susp
    using assms by (auto simp: list_all_iff keeps_launcher [OF keep] keeps_outcome [OF keep])
qed

lemma waiting_step: "waiting s \<Longrightarrow> waiting (step a s)"
  unfolding step_def
  by (intro waiting_run_microtasks launchers_perform waiting_launchers)

lemma waiting_run: "waiting s \<Longrightarrow> waiting (run acts s)"
  unfolding run_def by (induction acts arbitrary: s) (simp_all add: waiting_step)

lemma waiting_boot: "waiting (boot penv dev cfg isOSX browser_id ws md)"
  by (simp add: waiting_def boot_def)


lemma resume_settled_pending:
  "promise_outcome (host s) (awaits k) = Pending \<Longrightarrow>
   resume_settled k s = s\<lparr>suspended := suspended s @ [k]\<rparr>"
  by (simp add: resume_settled_def)

lemma fold_resume_pending:
  "list_all (\<lambda>k. promise_outcome (host s) (awaits k) = Pending) ks \<Longrightarrow>
   fold resume_settled ks s = s\<lparr>suspended := suspended s @ ks\<rparr>"
  by (induction ks arbitrary: s) (simp_all add: resume_settled_pending)

lemma run_microtasks_pending:
  "list_all (\<lambda>k. promise_outcome (host s) (awaits k) = Pending) (suspended s) \<Longrightarrow>
   run_microtasks s = s"
  by (simp add: run_microtasks_def fold_resume_pending)

lemma run_microtasks_last_rejected:
  assumes "suspended t = ks @ [k]"
    and "list_all (\<lambda>k. promise_outcome (host t) (awaits k) = Pending) ks"
    and "promise_outcome (host t) (awaits k) = Rejected e"
  shows "run_microtasks t =
           t\<lparr>suspended := ks,
             host := finish (returns k) Fulfilled
                       ((host t)\<lparr>logged := logged (host t) @ [LoggerErrorObject e]\<rparr>)\<rparr>"
proof -
  have "run_microtasks t = resume_settled k (fold resume_settled ks (t\<lparr>suspended := []\<rparr>))"
    by (simp add: run_microtasks_def assms(1))
  also have "fold resume_settled ks (t\<lparr>suspended := []\<rparr>) = t\<lparr>suspended := ks\<rparr>"
    using assms(2) by (simp add: fold_resume_pending)
  also have "resume_settled k (t\<lparr>suspended := ks\<rparr>) =
      t\<lparr>suspended := ks,
        host := finish (returns k) Fulfilled
                  ((host t)\<lparr>logged := logged (host t) @ [LoggerErrorObject e]\<rparr>)\<rparr>"
    using assms(3) by (simp add: resume_settled_rejected)
  finally show ?thesis .
qed

lemma waiting_pending_after_start:
  assumes "waiting s"
  shows "list_all (\<lambda>k. promise_outcome (host (snd (CodeWindow_start ft path s))) (awaits k) = Pending)
           (suspended s)"
  using assms
  by (auto simp: waiting_def list_all_iff keeps_outcome [OF keeps_start])

lemma step_start_throws:
  assumes "waiting s"
  shows "step (Start (Some e) path) s =
           (snd (CodeWindow_start (Some e) path s))
             \<lparr>suspended := suspended s,
              host := finish (length (promises (host s))) Fulfilled
                        ((host (snd (CodeWindow_start (Some e) path s)))
                           \<lparr>logged := logged (host s) @ [LoggerErrorObject e]\<rparr>)\<rparr>"
proof -
  let ?t = "snd (CodeWindow_start (Some e) path s)"
  let ?k = "\<lparr>awaits = Suc (Suc (length (promises (host s)))), rpcListenPath_of = path,
         returns = length (promises (host s))\<rparr>"
  have rej: "promise_outcome (host ?t) (awaits ?k) = Rejected e"
    by (simp add: promise_outcome_def start_promises nth_append)
  show ?thesis
    using run_microtasks_last_rejected
      [OF start_suspended waiting_pending_after_start [OF assms] rej]
    by (simp add: step_def start_frame)
qed


lemma step_start_forks:
  assumes "waiting s"
  shows "step (Start None path) s = snd (CodeWindow_start None path s)"
proof -
  let ?t = "snd (CodeWindow_start None path s)"
  have "promise_outcome (host ?t) (Suc (Suc (length (promises (host s))))) = Pending"
    by (simp add: promise_outcome_def start_promises nth_append)
  then have "list_all (\<lambda>k. promise_outcome (host ?t) (awaits k) = Pending) (suspended ?t)"
    using waiting_pending_after_start [OF assms, of None path]
    by (simp add: start_suspended)
  then show ?thesis
    by (simp add: step_def run_microtasks_pending)
qed

lemma start_forked_child:
  "length (children (host s)) < length (children (host (snd (CodeWindow_start None path s)))) \<and>
   cp_settles (children (host (snd (CodeWindow_start None path s))) ! length (children (host s)))
     = Suc (length (promises (host s)))"
  by (simp add: CodeWindow_start_host start_fresh_children nth_append)

lemma start_forked_child_error:
  "child_emit (length (children (host s))) (Error e) (host (snd (CodeWindow_start None path s))) =
     (host (snd (CodeWindow_start None path s)))
       \<lparr>promises := promises (host s) @
          [Returns Pending, Settles (Rejected e), Follows (Suc (length (promises (host s))))]\<rparr>"
  using start_forked_child [of s path]
  by (simp add: child_emit_def settle_def start_promises nth_append list_update_append)

lemma promise_outcome_append:
  "launcher_promise w k \<Longrightarrow>
   promise_outcome (w'\<lparr>promises := promises w @ cells\<rparr>) (awaits k) = promise_outcome w (awaits k)"
  by (auto simp: launcher_promise_def promise_outcome_def nth_append split: promise_cell.splits)

lemma step_start_then_error:
  assumes "waiting s"
  shows "step (Child (length (children (host s))) (Error e)) (step (Start None path) s) =
           (snd (CodeWindow_start None path s))
             \<lparr>suspended := suspended s,
              host := finish (length (promises (host s))) Fulfilled
                        ((host (snd (CodeWindow_start None path s)))
                           \<lparr>promises := promises (host s) @
                              [Returns Pending, Settles (Rejected e),
                               Follows (Suc (length (promises (host s))))],
                            logged := logged (host s) @ [LoggerErrorObject e]\<rparr>)\<rparr>"
proof -
  let ?t0 = "snd (CodeWindow_start None path s)"
  let ?w = "(host ?t0)\<lparr>promises := promises (host s) @
          [Returns Pending, Settles (Rejected e), Follows (Suc (length (promises (host s))))]\<rparr>"
  let ?t = "?t0\<lparr>host := ?w\<rparr>"
  let ?k = "\<lparr>awaits = Suc (Suc (length (promises (host s)))), rpcListenPath_of = path,
         returns = length (promises (host s))\<rparr>"
  have susp: "suspended ?t = suspended s @ [?k]"
    by (simp add: start_suspended)
  have old: "list_all (\<lambda>k. promise_outcome (host ?t) (awaits k) = Pending) (suspended s)"
    using assms by (auto simp: waiting_def list_all_iff promise_outcome_append)
  have rej: "promise_outcome (host ?t) (awaits ?k) = Rejected e"
    by (simp add: promise_outcome_def nth_append)
  have "step (Child (length (children (host s))) (Error e)) (step (Start None path) s) =
        run_microtasks ?t"
    unfolding step_start_forks [OF assms]
    by (simp add: step_def start_forked_child_error)
  also have "\<dots> = ?t\<lparr>suspended := suspended s,
             host := finish (returns ?k) Fulfilled
                       ((host ?t)\<lparr>logged := logged (host ?t) @ [LoggerErrorObject e]\<rparr>)\<rparr>"
    by (rule run_microtasks_last_rejected [OF susp old rej])
  finally show ?thesis
    by (simp add: start_frame)
qed


lemma resume_settled_frame_pending_or_rejected:
  assumes "promise_outcome (host s) (awaits k) = Pending \<or>
           promise_outcome (host s) (awaits k) = Rejected e"
  shows "window (resume_settled k s) = window s \<and>
         children (host (resume_settled k s)) = children (host s) \<and>
         openExternal (resume_settled k s) = openExternal s \<and>
         logged (host (resume_settled k s)) =
           logged (host s) @
             (if promise_outcome (host s) (awaits k) = Pending then [] else [LoggerErrorObject e])"
  using assms by (auto simp: resume_settled_pending resume_settled_rejected)

lemma fold_resume_rejected:
  assumes "list_all (\<lambda>k. launcher_promise (host s) k \<and>
              (promise_outcome (host s) (awaits k) = Pending \<or>
               promise_outcome (host s) (awaits k) = Rejected e)) ks"
  shows "window (fold resume_settled ks s) = window s \<and>
         children (host (fold resume_settled ks s)) = children (host s) \<and>
         openExternal (fold resume_settled ks s) = openExternal s \<and>
         logged (host (fold resume_settled ks s)) =
           logged (host s) @
             map (\<lambda>k. LoggerErrorObject e)
               (filter (\<lambda>k. promise_outcome (host s) (awaits k) \<noteq> Pending) ks)"
  using assms
proof (induction ks arbitrary: s)
  case Nil
  then show ?case by simp
next
  case (Cons k ks)
  let ?s1 = "resume_settled k s"
  have keep: "keeps_launchers (host s) (host ?s1)"
    by (rule keeps_resume_settled)
  have k: "promise_outcome (host s) (awaits k) = Pending \<or>
           promise_outcome (host s) (awaits k) = Rejected e"
    using Cons.prems by simp
  have all: "list_all (\<lambda>k. launcher_promise (host s) k \<and>
              (promise_outcome (host s) (awaits k) = Pending \<or>
               promise_outcome (host s) (awaits k) = Rejected e)) ks"
    using Cons.prems by simp
  then have all1: "list_all (\<lambda>k. launcher_promise (host ?s1) k \<and>
              (promise_outcome (host ?s1) (awaits k) = Pending \<or>
               promise_outcome (host ?s1) (awaits k) = Rejected e)) ks"
    by (auto simp: list_all_iff keeps_launcher [OF keep] keeps_outcome [OF keep])
  have same: "filter (\<lambda>k. promise_outcome (host ?s1) (awaits k) \<noteq> Pending) ks =
              filter (\<lambda>k. promise_outcome (host s) (awaits k) \<noteq> Pending) ks"
    using all by (intro filter_cong refl) (simp add: list_all_iff keeps_outcome [OF keep])
  show ?case
    using Cons.IH [OF all1] resume_settled_frame_pending_or_rejected [OF k] same
    by auto
qed

lemma child_error_outcome:
  assumes "launcher_promise w k" "promise_outcome w (awaits k) = Pending"
  shows "launcher_promise (child_emit pid (Error e) w) k \<and>
         (promise_outcome (child_emit pid (Error e) w) (awaits k) = Pending \<or>
          promise_outcome (child_emit pid (Error e) w) (awaits k) = Rejected e)"
  using assms
  by (auto simp: launcher_promise_def promise_outcome_def child_emit_cell
      split: promise_cell.splits)

lemma child_error_logged [simp]: "logged (child_emit pid (Error e) w) = logged w"
  by (simp add: child_emit_def settle_def Let_def)

lemma step_child_error:
  assumes "waiting s"
  shows "window (step (Child pid (Error e)) s) = window s \<and>
         children (host (step (Child pid (Error e)) s)) = children (host s) \<and>
         openExternal (step (Child pid (Error e)) s) = openExternal s \<and>
         suspended (step (Child pid (Error e)) s) =
           filter (\<lambda>k. promise_outcome (host (perform (Child pid (Error e)) s)) (awaits k) = Pending)
             (suspended s) \<and>
         logged (host (step (Child pid (Error e)) s)) =
           logged (host s) @
             map (\<lambda>k. LoggerErrorObject e)
               (filter (\<lambda>k. promise_outcome (host (perform (Child pid (Error e)) s)) (awaits k)
                               \<noteq> Pending)
                  (suspended s))"
proof -
  let ?t = "perform (Child pid (Error e)) s"
  let ?t0 = "?t\<lparr>suspended := []\<rparr>"
  have all: "list_all (\<lambda>k. launcher_promise (host ?t0) k \<and>
              (promise_outcome (host ?t0) (awaits k) = Pending \<or>
               promise_outcome (host ?t0) (awaits k) = Rejected e)) (suspended s)"
    using assms by (auto simp: waiting_def list_all_iff child_error_outcome)
  then have wf: "list_all (launcher_promise (host ?t0)) (suspended s)"
    by (simp add: list_all_iff)
  have run: "step (Child pid (Error e)) s = fold resume_settled (suspended s) ?t0"
    by (simp add: step_def run_microtasks_def)
  show ?thesis
    unfolding run
    using fold_resume_rejected [OF all] fold_resume_settled [OF wf]
    by simp
qed


lemma failed_spawn_run:
  assumes "waiting s"
  shows "(let s' = step (Start (Some e) path) s in
            browser (window s') = browser (window s) \<and>
            logged (host s') = logged (host s) @ [LoggerErrorObject e] \<and>
            suspended s' = suspended s \<and>
            openExternal s' = openExternal s \<and>
            length (children (host s')) = length (children (host s)) \<and>
            promise_outcome (host s') (fst (CodeWindow_start (Some e) path s)) = Fulfilled)"
  unfolding Let_def step_start_throws [OF assms]
  by (simp add: start_frame start_children_length start_result finish_def promise_outcome_def
      start_promises nth_append)

lemma failed_handshake_run:
  assumes "waiting s"
  shows "(let s' = step (Child (length (children (host s))) (Error e)) (step (Start None path) s) in
            browser (window s') = browser (window s) \<and>
            logged (host s') = logged (host s) @ [LoggerErrorObject e] \<and>
            suspended s' = suspended s \<and>
            openExternal s' = openExternal s \<and>
            length (children (host s')) = Suc (length (children (host s))) \<and>
            promise_outcome (host s') (fst (CodeWindow_start None path s)) = Fulfilled)"
  unfolding Let_def step_start_then_error [OF assms]
  by (simp add: start_frame start_children_length start_result finish_def promise_outcome_def
      nth_append)

text \<open>
  C4. The promise that \<^verbatim>\<open>CodeWindow.start\<close> returns to its caller is never rejected,
  whatever \<^verbatim>\<open>fork\<close> does and whatever happens afterwards, and the part of \<^verbatim>\<open>start\<close>
  before its \<^verbatim>\<open>await\<close> loads nothing, shows nothing and logs nothing. Every state that
  a window reaches from its construction is a waiting one, and from a waiting state:
  when \<^verbatim>\<open>fork\<close> throws \<open>e\<close>, the turn of the event loop that calls \<^verbatim>\<open>start\<close> ends with
  \<open>e\<close> logged as an error, the browser as it was (nothing loaded, not shown, no
  listener added), no child forked, no call left waiting and the promise of the call
  fulfilled; when \<^verbatim>\<open>fork\<close> returns a child and the child then emits the error \<open>e\<close>,
  the same holds with the one child forked; and at any error event of any child, every
  suspended call whose awaited promise the event has rejected goes on, logs \<open>e\<close> and
  waits no more, while the window, the children and the calls that still wait stay as
  they are. The last part is the \<^verbatim>\<open>catch\<close> block on its own.
\<close>

theorem start_failure_is_logged_and_never_rejects:
  "(\<forall>acts e'. promise_outcome (host (run acts (snd (CodeWindow_start fork_throws path s))))
                (fst (CodeWindow_start fork_throws path s)) \<noteq> Rejected e') \<and>
   browser (window (snd (CodeWindow_start fork_throws path s))) = browser (window s) \<and>
   logged (host (snd (CodeWindow_start fork_throws path s))) = logged (host s) \<and>
   openExternal (snd (CodeWindow_start fork_throws path s)) = openExternal s \<and>
   waiting (run acts0 (boot penv dev cfg isOSX browser_id ws md)) \<and>
   (waiting s \<longrightarrow>
      (let s' = step (Start (Some e) path) s in
         browser (window s') = browser (window s) \<and>
         logged (host s') = logged (host s) @ [LoggerErrorObject e] \<and>
         suspended s' = suspended s \<and>
         openExternal s' = openExternal s \<and>
         length (children (host s')) = length (children (host s)) \<and>
         promise_outcome (host s') (fst (CodeWindow_start (Some e) path s)) = Fulfilled)) \<and>
   (waiting s \<longrightarrow>
      (let s' = step (Child (length (children (host s))) (Error e)) (step (Start None path) s) in
         browser (window s') = browser (window s) \<and>
         logged (host s') = logged (host s) @ [LoggerErrorObject e] \<and>
         suspended s' = suspended s \<and>
         openExternal s' = openExternal s \<and>
         length (children (host s')) = Suc (length (children (host s))) \<and>
         promise_outcome (host s') (fst (CodeWindow_start None path s)) = Fulfilled)) \<and>
   (waiting s \<longrightarrow>
      window (step (Child pid (Error e)) s) = window s \<and>
      children (host (step (Child pid (Error e)) s)) = children (host s) \<and>
      openExternal (step (Child pid (Error e)) s) = openExternal s \<and>
      suspended (step (Child pid (Error e)) s) =
        filter (\<lambda>k. promise_outcome (host (perform (Child pid (Error e)) s)) (awaits k) = Pending)
          (suspended s) \<and>
      logged (host (step (Child pid (Error e)) s)) =
        logged (host s) @
          map (\<lambda>k. LoggerErrorObject e)
            (filter (\<lambda>k. promise_outcome (host (perform (Child pid (Error e)) s)) (awaits k)
                            \<noteq> Pending)
               (suspended s))) \<and>
   (promise_outcome (host s) (awaits k) = Rejected e \<longrightarrow>
      window (resume_settled k s) = window s \<and>
      children (host (resume_settled k s)) = children (host s) \<and>
      suspended (resume_settled k s) = suspended s \<and>
      openExternal (resume_settled k s) = openExternal s \<and>
      logged (host (resume_settled k s)) = logged (host s) @ [LoggerErrorObject e])"
proof -
  have never: "promise_outcome (host (run acts (snd (CodeWindow_start fork_throws path s))))
          (fst (CodeWindow_start fork_throws path s)) \<noteq> Rejected e'" for acts e'
    by (intro unrejected_outcome unrejected_run start_result_unrejected)
  have reached: "waiting (run acts0 (boot penv dev cfg isOSX browser_id ws md))"
    by (intro waiting_run waiting_boot)
  have one: "promise_outcome (host s) (awaits k) = Rejected e \<Longrightarrow>
      window (resume_settled k s) = window s \<and>
      children (host (resume_settled k s)) = children (host s) \<and>
      suspended (resume_settled k s) = suspended s \<and>
      openExternal (resume_settled k s) = openExternal s \<and>
      logged (host (resume_settled k s)) = logged (host s) @ [LoggerErrorObject e]"
    by (simp add: resume_settled_rejected)
  show ?thesis
    using never start_frame [of fork_throws path s] reached
      failed_spawn_run [of s e path] failed_handshake_run [of s e path]
      step_child_error [of s pid e] one
    by blast
qed


lemma demo_boot_fields:
  "logged (host demo_boot) = []" "children (host demo_boot) = []"
  "promises (host demo_boot) = []" "suspended demo_boot = []" "openExternal demo_boot = []"
  "bw_loaded (browser (window demo_boot)) = []" "\<not> bw_shown (browser (window demo_boot))"
  "bw_on_did_finish_load (browser (window demo_boot)) = []"
  "bw_on_new_window (browser (window demo_boot)) = 0"
  by (simp_all add: demo_boot_def boot_def boot_world_def new_CodeWindow_def)

theorem start_failure_is_logged_and_never_rejects_witness:
  "waiting demo_boot \<and>
   (let s' = step (Start (Some (JsError ''spawn'')) ''/tmp/abc.sock'') demo_boot in
      logged (host s') = [LoggerErrorObject (JsError ''spawn'')] \<and>
      bw_loaded (browser (window s')) = [] \<and> \<not> bw_shown (browser (window s')) \<and>
      bw_on_did_finish_load (browser (window s')) = [] \<and>
      bw_on_new_window (browser (window s')) = 0 \<and>
      suspended s' = [] \<and> children (host s') = [] \<and>
      promise_outcome (host s') 0 = Fulfilled) \<and>
   (let s' = step (Child 0 (Error (JsError ''boom''))) (step (Start None ''/tmp/abc.sock'') demo_boot) in
      logged (host s') = [LoggerErrorObject (JsError ''boom'')] \<and>
      bw_loaded (browser (window s')) = [] \<and> \<not> bw_shown (browser (window s')) \<and>
      bw_on_did_finish_load (browser (window s')) = [] \<and>
      bw_on_new_window (browser (window s')) = 0 \<and>
      suspended s' = [] \<and> length (children (host s')) = 1 \<and>
      promise_outcome (host s') 0 = Fulfilled) \<and>
   promise_outcome (host demo_rejected)
     (awaits \<lparr>awaits = 2, rpcListenPath_of = ''/tmp/abc.sock'', returns = 0\<rparr>)
     = Rejected (JsError ''boom'') \<and>
   window (resume_settled \<lparr>awaits = 2, rpcListenPath_of = ''/tmp/abc.sock'', returns = 0\<rparr>
             demo_rejected) = window demo_rejected \<and>
   logged (host (resume_settled \<lparr>awaits = 2, rpcListenPath_of = ''/tmp/abc.sock'', returns = 0\<rparr>
             demo_rejected)) = [LoggerErrorObject (JsError ''boom'')]"
proof -
  let ?k = "\<lparr>awaits = 2, rpcListenPath_of = ''/tmp/abc.sock'', returns = 0\<rparr>"
  have w: "waiting demo_boot"
    by (simp add: waiting_def demo_boot_fields)
  have rej: "promise_outcome (host demo_rejected) (awaits ?k) = Rejected (JsError ''boom'')"
    by (simp add: demo_rejected_eq promise_outcome_def)
  have l: "logged (host demo_rejected) = []"
    by (simp add: demo_rejected_eq demo_started_eq demo_boot_fields)
  note spawn = start_failure_is_logged_and_never_rejects
        [where s = demo_boot and e = "JsError ''spawn''" and path = "''/tmp/abc.sock''"]
  note boom = start_failure_is_logged_and_never_rejects
        [where s = demo_boot and e = "JsError ''boom''" and path = "''/tmp/abc.sock''"]
  note one = start_failure_is_logged_and_never_rejects
        [where s = demo_rejected and k = ?k and e = "JsError ''boom''"]
  show ?thesis
    using w rej l spawn boom one
    by (simp add: Let_def demo_boot_fields start_result)
qed

section \<open>Every host that is reached keeps its listeners closed\<close>

text \<open>
  The hypothesis of the theorem on the readiness handshake holds when the host boots
  and is kept by \<^verbatim>\<open>start\<close>, by \<^verbatim>\<open>kill\<close> and by every event of a child.
\<close>

lemma listeners_closed_boot: "listeners_closed (boot_world penv dev)"
  by (simp add: listeners_closed_def boot_world_def)

lemma listeners_closed_child_emit:
  "listeners_closed w \<Longrightarrow> listeners_closed (child_emit pid ev w)"
  by (simp add: listeners_closed_def)

lemma listeners_closed_kill: "listeners_closed w \<Longrightarrow> listeners_closed (kill pid w)"
  by (auto simp: listeners_closed_def kill_def list_all_length nth_list_update)

lemma listeners_closed_append:
  "listeners_closed w \<Longrightarrow> listeners_closed (w\<lparr>promises := promises w @ cells\<rparr>)"
  by (auto simp: listeners_closed_def list_all_length)

lemma listeners_closed_start:
  assumes "listeners_closed w"
  shows "listeners_closed (snd (snd (KTNodeProcess_start ft path ws n w)))"
proof (cases "kt_ready n")
  case (Some r)
  then show ?thesis using assms by (simp add: start_again listeners_closed_append)
next
  case None
  show ?thesis
  proof (cases ft)
    case ft: None
    then show ?thesis using assms None
      by (auto simp: KTNodeProcess_start_def create_ready_def Let_def listeners_closed_def
          list_all_length nth_append)
  next
    case ft: (Some e)
    then show ?thesis using assms None
      by (auto simp: KTNodeProcess_start_def create_ready_def Let_def listeners_closed_def
          list_all_length)
  qed
qed

end
